theory Spec2Isabelle
  imports Complex_Main "HOL-Library.Monad_Syntax"
begin

section \<open>Data model of the instrument (test2.py, class InstrumentUI)\<close>

text \<open>
  The grid has \<open>self.rows = 8\<close> rows and \<open>self.cols = 12\<close> columns. A matrix is a Python
  list of row lists. Python floats (epoch seconds, brightness-seconds) are modelled as
  exact rationals: rounding is not part of this model. Brightness values are Python ints.
\<close>

definition rows :: nat where "rows = 8"
definition cols :: nat where "cols = 12"

text \<open>What \<open>send_matrix\<close> did with a frame it built.\<close>

datatype tx_outcome = Simulated | Written | WriteFailed | NotOpen

text \<open>The session summary that \<open>save_session_data\<close> appends to the log file.\<close>

record summary =
  session_start :: "rat option"
  session_end :: rat
  total_seconds :: rat
  averages :: "rat list list"

text \<open>
  Effects that leave the object, in the order they happen: a call of \<open>send_matrix\<close>
  with the frame it built, and the outcome of \<open>save_session_data\<close>.
\<close>

datatype out_event = Transmit string tx_outcome | Saved summary | SaveError

text \<open>
  The fields of \<open>InstrumentUI\<close> that the session logic reads and writes. \<open>serial_conn\<close> is
  \<open>None\<close> or a connection with its \<open>is_open\<close> flag; \<open>outlog\<close> is the trace of effects.
  Widgets (buttons, labels, message boxes) are not modelled.
\<close>

record instrument =
  serial_conn :: "bool option"
  simulation_mode :: bool
  instrument_on :: bool
  start_time :: "rat option"
  start_datetime :: "rat option"
  brightness_values :: "int list list"
  brightness_time_sum :: "rat list list"
  last_update_time :: "rat option list list"
  outlog :: "out_event list"

text \<open>
  What the environment answers during one operation: \<open>t_now\<close> is \<open>time.time()\<close> read at
  the start of the operation, \<open>dt_now\<close> is \<open>datetime.datetime.now()\<close>, \<open>write_raises\<close> says
  whether the serial write raises, \<open>save_raises\<close> whether the file dialog or the file
  write raises, \<open>dt_end\<close> and \<open>dt_end2\<close> are the two reads of the calendar clock in
  \<open>save_session_data\<close>, and \<open>t_avg r c\<close> is \<open>time.time()\<close> as read by the call of
  \<open>_calculate_average(r, c)\<close> made while saving.
\<close>

record env =
  t_now :: rat
  dt_now :: rat
  write_raises :: bool
  save_raises :: bool
  dt_end :: rat
  dt_end2 :: rat
  t_avg :: "nat \<Rightarrow> nat \<Rightarrow> rat"

subsection \<open>Indexing a list of lists\<close>

text \<open>
  \<open>m[r][c]\<close> with a non-negative index raises IndexError out of range: \<open>at2\<close> returns
  \<open>None\<close> there. \<open>put2\<close> is the assignment \<open>m[r][c] = v\<close>.
\<close>

definition at2 :: "'a list list \<Rightarrow> nat \<Rightarrow> nat \<Rightarrow> 'a option" where
  "at2 m r c = (if r < length m \<and> c < length (m ! r) then Some (m ! r ! c) else None)"

definition put2 :: "'a list list \<Rightarrow> nat \<Rightarrow> nat \<Rightarrow> 'a \<Rightarrow> 'a list list option" where
  "put2 m r c v =
     (if r < length m \<and> c < length (m ! r) then Some (m[r := (m ! r)[c := v]]) else None)"

text \<open>\<open>[[v for _ in range(self.cols)] for _ in range(self.rows)]\<close>\<close>

definition fresh :: "'a \<Rightarrow> 'a list list" where
  "fresh v = replicate rows (replicate cols v)"

section \<open>Transport: \<open>send_matrix\<close>\<close>

text \<open>Python's \<open>str\<close> on an int: decimal digits, a minus sign for a negative number.\<close>

function str_nat :: "nat \<Rightarrow> string" where
  "str_nat n =
     (if n < 10 then [''0123456789'' ! n]
      else str_nat (n div 10) @ [''0123456789'' ! (n mod 10)])"
  by pat_completeness auto
termination
  by (relation "measure id") auto

declare str_nat.simps [simp del]

definition str_int :: "int \<Rightarrow> string" where
  "str_int i = (if i < 0 then CHR ''-'' # str_nat (nat (- i)) else str_nat (nat i))"

text \<open>\<open>sep.join(parts)\<close>\<close>

fun join :: "string \<Rightarrow> string list \<Rightarrow> string" where
  "join sep [] = []"
| "join sep [p] = p"
| "join sep (p # q # ps) = p @ sep @ join sep (q # ps)"

text \<open>
  The two nested loops of \<open>send_matrix\<close>: \<open>for col in range(self.cols): for row in
  range(self.rows): parts.append(str(self.brightness_values[row][col]))\<close>.
\<close>

definition parts :: "int list list \<Rightarrow> string list" where
  "parts bv =
     fold (\<lambda>col ps. fold (\<lambda>row ps. ps @ [str_int (bv ! row ! col)]) [0..<rows] ps)
       [0..<cols] []"

definition transmission :: "int list list \<Rightarrow> string" where
  "transmission bv = ''<'' @ join '','' (parts bv) @ ''>''"

definition emit :: "out_event \<Rightarrow> instrument \<Rightarrow> instrument" where
  "emit ev s = s\<lparr>outlog := outlog s @ [ev]\<rparr>"

definition send_matrix :: "env \<Rightarrow> instrument \<Rightarrow> instrument" where
  "send_matrix e s =
     (let tr = transmission (brightness_values s) in
      if simulation_mode s \<or> serial_conn s = None then emit (Transmit tr Simulated) s
      else if serial_conn s = Some True then
        (if write_raises e then emit (Transmit tr WriteFailed) s
         else emit (Transmit tr Written) s)
      else emit (Transmit tr NotOpen) s)"

section \<open>Session logic\<close>

text \<open>
  The loops \<open>for r in range(self.rows): for c in range(self.cols): ...\<close> visit every cell
  in row-major order. Inside them the matrices are indexed without a check: the three
  matrices are created with \<open>rows\<close> by \<open>cols\<close> entries and keep that shape (\<open>shaped\<close>
  below, an invariant of every operation), so no index of these loops is out of range.
\<close>

definition for_cells :: "(nat \<Rightarrow> nat \<Rightarrow> 's \<Rightarrow> 's) \<Rightarrow> 's \<Rightarrow> 's" where
  "for_cells body s = fold (\<lambda>r. fold (\<lambda>c. body r c) [0..<cols]) [0..<rows] s"

definition upd2 :: "'a list list \<Rightarrow> nat \<Rightarrow> nat \<Rightarrow> 'a \<Rightarrow> 'a list list" where
  "upd2 m r c v = m[r := (m ! r)[c := v]]"

subsection \<open>\<open>_calculate_average\<close>\<close>

definition calculate_average :: "nat \<Rightarrow> nat \<Rightarrow> rat \<Rightarrow> instrument \<Rightarrow> rat option" where
  "calculate_average r c now s =
     (if start_time s = None \<and> \<not> instrument_on s then Some 0
      else
        let total_time = (case start_time s of Some st \<Rightarrow> now - st | None \<Rightarrow> 0) in
        if total_time \<le> 0 then
          do { b \<leftarrow> at2 (brightness_values s) r c; Some (of_int b) }
        else do {
          accumulated \<leftarrow> at2 (brightness_time_sum s) r c;
          lut \<leftarrow> at2 (last_update_time s) r c;
          current \<leftarrow> at2 (brightness_values s) r c;
          let partial = (case lut of Some l \<Rightarrow> (now - l) * of_int current | None \<Rightarrow> 0);
          let weighted = accumulated + partial;
          Some (weighted / total_time)
        })"

subsection \<open>\<open>_on_button_click\<close>\<close>

text \<open>
  \<open>QInputDialog.getInt(parent, title, label, value, min, max, step)\<close> belongs to the Qt
  library, not to this program: it is a parameter of the model, a function from the four
  numbers it is given (the value shown first, the minimum, the maximum, the step) to the
  pair \<open>(value, ok)\<close> it returns.
\<close>

type_synonym dialog = "int \<Rightarrow> int \<Rightarrow> int \<Rightarrow> int \<Rightarrow> int \<times> bool"


text \<open>The dialog that returns \<open>(v, ok)\<close> whatever it is given.\<close>

definition answers :: "int \<Rightarrow> bool \<Rightarrow> dialog" where
  "answers v ok = (\<lambda>cur lo hi st. (v, ok))"


text \<open>
  \<open>_on_button_click(row, col)\<close>: the dialog is opened on the current brightness of the cell
  with the bounds 0 and 100 and the step 1. \<open>None\<close> is an IndexError.
\<close>

definition on_button_click ::
  "nat \<Rightarrow> nat \<Rightarrow> dialog \<Rightarrow> env \<Rightarrow> instrument \<Rightarrow> instrument option" where
  "on_button_click row col dlg e s =
     do {
       shown \<leftarrow> at2 (brightness_values s) row col;
       let (val, ok) = dlg shown 0 100 1;
       if \<not> ok then Some s
       else do {
         old_val \<leftarrow> at2 (brightness_values s) row col;
         let now = t_now e;
         if instrument_on s then do {
           lut \<leftarrow> at2 (last_update_time s) row col;
           acc_sums \<leftarrow>
             (case lut of
                None \<Rightarrow> Some (brightness_time_sum s)
              | Some l \<Rightarrow>
                  let dt = now - l in
                  if dt > 0 then do {
                    acc \<leftarrow> at2 (brightness_time_sum s) row col;
                    put2 (brightness_time_sum s) row col (acc + of_int old_val * dt)
                  }
                  else Some (brightness_time_sum s));
           luts \<leftarrow> put2 (last_update_time s) row col (Some now);
           bvs \<leftarrow> put2 (brightness_values s) row col val;
           Some (send_matrix e
                   (s\<lparr>brightness_time_sum := acc_sums, last_update_time := luts,
                      brightness_values := bvs\<rparr>))
         }
         else do {
           bvs \<leftarrow> put2 (brightness_values s) row col val;
           Some (s\<lparr>brightness_values := bvs\<rparr>)
         }
       }
     }"

subsection \<open>\<open>_turn_on\<close>\<close>

definition turn_on :: "env \<Rightarrow> instrument \<Rightarrow> instrument" where
  "turn_on e s =
     (let now = t_now e;
          s1 = s\<lparr>instrument_on := True, start_time := Some now,
                 start_datetime := Some (dt_now e), brightness_time_sum := fresh 0\<rparr>;
          s2 = for_cells
                 (\<lambda>r c s. s\<lparr>last_update_time := upd2 (last_update_time s) r c (Some now)\<rparr>) s1
      in send_matrix e s2)"

subsection \<open>\<open>save_session_data\<close>\<close>

text \<open>
  \<open>None\<close> is an exception leaving \<open>save_session_data\<close>: from the dialog or the file
  (\<open>save_raises\<close>), or out of \<open>_calculate_average\<close>. The summary holds the averages as
  computed; their rendering with two decimals is not modelled.
\<close>

definition save_session_data :: "env \<Rightarrow> instrument \<Rightarrow> summary option" where
  "save_session_data e s =
     (let end_datetime = dt_end e;
          total_time = (case start_datetime s of Some sd \<Rightarrow> dt_end2 e - sd | None \<Rightarrow> 0) in
      if save_raises e then None
      else
        case those (map (\<lambda>r. those (map (\<lambda>c. calculate_average r c (t_avg e r c) s) [0..<cols]))
                      [0..<rows]) of
          None \<Rightarrow> None
        | Some avgs \<Rightarrow>
            Some \<lparr>session_start = start_datetime s, session_end = end_datetime,
                  total_seconds = total_time, averages = avgs\<rparr>)"

subsection \<open>\<open>_turn_off\<close>\<close>

definition close_cell :: "rat \<Rightarrow> nat \<Rightarrow> nat \<Rightarrow> instrument \<Rightarrow> instrument" where
  "close_cell now r c s =
     (case last_update_time s ! r ! c of
        None \<Rightarrow> s
      | Some lut \<Rightarrow>
          let dt = now - lut in
          if dt > 0 then
            s\<lparr>brightness_time_sum :=
                upd2 (brightness_time_sum s) r c
                  (brightness_time_sum s ! r ! c + of_int (brightness_values s ! r ! c) * dt)\<rparr>
          else s)"

definition turn_off :: "env \<Rightarrow> instrument \<Rightarrow> instrument" where
  "turn_off e s =
     (if \<not> instrument_on s then s
      else
        let now = t_now e;
            s1 = for_cells (close_cell now) s;
            s2 = s1\<lparr>brightness_values := fresh 0\<rparr>;
            s3 = send_matrix e s2;
            s4 = (case save_session_data e s3 of
                    Some summ \<Rightarrow> emit (Saved summ) s3
                  | None \<Rightarrow> emit SaveError s3)
        in s4\<lparr>instrument_on := False, start_time := None, start_datetime := None,
              last_update_time := fresh None\<rparr>)"

definition toggle_instrument :: "env \<Rightarrow> instrument \<Rightarrow> instrument" where
  "toggle_instrument e s = (if \<not> instrument_on s then turn_on e s else turn_off e s)"

subsection \<open>\<open>_timer_tick\<close>\<close>

definition tick_cell :: "rat \<Rightarrow> nat \<Rightarrow> nat \<Rightarrow> instrument \<Rightarrow> instrument" where
  "tick_cell now r c s =
     (case last_update_time s ! r ! c of
        None \<Rightarrow> s
      | Some lut \<Rightarrow>
          let dt = now - lut in
          if dt > 0 then
            s\<lparr>brightness_time_sum :=
                upd2 (brightness_time_sum s) r c
                  (brightness_time_sum s ! r ! c + of_int (brightness_values s ! r ! c) * dt),
              last_update_time := upd2 (last_update_time s) r c (Some now)\<rparr>
          else s)"

definition timer_tick :: "env \<Rightarrow> instrument \<Rightarrow> instrument" where
  "timer_tick e s =
     (if \<not> instrument_on s \<or> start_time s = None then s
      else for_cells (tick_cell (t_now e)) s)"

subsection \<open>\<open>__init__\<close>\<close>

text \<open>
  \<open>connect_serial\<close> leaves \<open>simulation_mode\<close> and \<open>serial_conn\<close>; the matrices are created
  and the initial all-zero matrix is sent.
\<close>

definition init :: "bool \<Rightarrow> bool option \<Rightarrow> env \<Rightarrow> instrument" where
  "init sim conn e =
     send_matrix e
       \<lparr>serial_conn = conn, simulation_mode = sim, instrument_on = False,
        start_time = None, start_datetime = None, brightness_values = fresh 0,
        brightness_time_sum = fresh 0, last_update_time = fresh None, outlog = []\<rparr>"

section \<open>Runs of the instrument\<close>

text \<open>
  The operations the user and the timer can trigger: an edit of cell \<open>(row, col)\<close> whose
  dialog returned \<open>(v, ok)\<close>, a timer tick, and the two session switches. Each comes with
  the environment it runs in.
\<close>

datatype action = Edit nat nat int bool | Tick | TurnOn | TurnOff

fun step :: "action \<times> env \<Rightarrow> instrument \<Rightarrow> instrument option" where
  "step (Edit row col v ok, e) s = on_button_click row col (answers v ok) e s"
| "step (Tick, e) s = Some (timer_tick e s)"
| "step (TurnOn, e) s = Some (turn_on e s)"
| "step (TurnOff, e) s = Some (turn_off e s)"

fun run :: "(action \<times> env) list \<Rightarrow> instrument \<Rightarrow> instrument option" where
  "run [] s = Some s"
| "run (a # as) s = (case step a s of None \<Rightarrow> None | Some s' \<Rightarrow> run as s')"

fun in_grid :: "action \<Rightarrow> bool" where
  "in_grid (Edit row col v ok) = (row < rows \<and> col < cols)"
| "in_grid a = True"


text \<open>Reading \<open>self.brightness_time_sum[r][c]\<close>.\<close>

definition weight_of :: "nat \<Rightarrow> nat \<Rightarrow> instrument \<Rightarrow> rat option" where
  "weight_of r c s = at2 (brightness_time_sum s) r c"


text \<open>The average of cell \<open>(r, c)\<close> in the summary saved last, if the last effect is a save.\<close>

definition saved_average :: "nat \<Rightarrow> nat \<Rightarrow> instrument \<Rightarrow> rat option" where
  "saved_average r c s =
     (if outlog s = [] then None
      else case last (outlog s) of Saved summ \<Rightarrow> at2 (averages summ) r c | _ \<Rightarrow> None)"

section \<open>The brightness history of a cell and its time integral\<close>

text \<open>
  The reference against which the accumulators are checked. A history is the list of change
  points \<open>(t, v)\<close> of one cell in one session, oldest first: the cell has brightness \<open>v\<close>
  from \<open>t\<close> until the next change point. \<open>step_integral h T\<close> is the integral of that step
  function from the first change point to \<open>T\<close>, for \<open>T\<close> not before the last change point:
  the sum of brightness times duration over the stretches.
\<close>

fun step_integral :: "(rat \<times> int) list \<Rightarrow> rat \<Rightarrow> rat" where
  "step_integral [] T = 0"
| "step_integral [(t, v)] T = of_int v * (T - t)"
| "step_integral ((t, v) # (t', v') # h) T =
     of_int v * (t' - t) + step_integral ((t', v') # h) T"

text \<open>
  What an observer of cell \<open>(r, c)\<close> writes down: the current brightness, the history of
  the session in progress (\<open>None\<close> while off), and the integral of the session closed last.
  TurnOn opens a history at the current brightness, an accepted edit of the cell adds a
  change point, TurnOff closes the session at its instant and the cell goes dark.
\<close>

record track =
  cur_level :: int
  open_session :: "(rat \<times> int) list option"
  last_total :: rat

fun observe :: "nat \<Rightarrow> nat \<Rightarrow> action \<times> env \<Rightarrow> track \<Rightarrow> track" where
  "observe r c (Edit row col v ok, e) k =
     (if ok \<and> row = r \<and> col = c then
        k\<lparr>cur_level := v,
          open_session := map_option (\<lambda>h. h @ [(t_now e, v)]) (open_session k)\<rparr>
      else k)"
| "observe r c (Tick, e) k = k"
| "observe r c (TurnOn, e) k = k\<lparr>open_session := Some [(t_now e, cur_level k)]\<rparr>"
| "observe r c (TurnOff, e) k =
     (case open_session k of
        None \<Rightarrow> k
      | Some h \<Rightarrow>
          \<lparr>cur_level = 0, open_session = None, last_total = step_integral h (t_now e)\<rparr>)"

definition history :: "nat \<Rightarrow> nat \<Rightarrow> (action \<times> env) list \<Rightarrow> track" where
  "history r c tr = fold (observe r c) tr \<lparr>cur_level = 0, open_session = None, last_total = 0\<rparr>"

text \<open>
  The accounting invariant of cell \<open>(r, c)\<close> at a time \<open>T\<close> not before the last operation:
  the accumulated sum is the integral of the history up to \<open>last_update_time\<close>, no change
  point is later than that stamp, and the stamp is not later than \<open>T\<close>.
\<close>

definition accounted :: "nat \<Rightarrow> nat \<Rightarrow> track \<Rightarrow> rat \<Rightarrow> instrument \<Rightarrow> bool" where
  "accounted r c k T s \<longleftrightarrow>
     brightness_values s ! r ! c = cur_level k \<and>
     (case open_session k of
        None \<Rightarrow> \<not> instrument_on s \<and> brightness_time_sum s ! r ! c = last_total k
      | Some h \<Rightarrow>
          instrument_on s \<and> h \<noteq> [] \<and> start_time s = Some (fst (hd h)) \<and>
          snd (last h) = cur_level k \<and> sorted (map fst h) \<and>
          (case last_update_time s ! r ! c of
             None \<Rightarrow> False
           | Some l \<Rightarrow>
               fst (last h) \<le> l \<and> l \<le> T \<and>
               brightness_time_sum s ! r ! c = step_integral h l))"

text \<open>
  The brightness of the cell at the instant \<open>t\<close> according to a history: the value of the
  last change point that is not after \<open>t\<close>.
\<close>

fun level_at :: "(rat \<times> int) list \<Rightarrow> rat \<Rightarrow> int" where
  "level_at [] t = 0"
| "level_at [(t0, v)] t = v"
| "level_at ((t0, v) # (t1, v1) # h) t =
     (if t1 \<le> t then level_at ((t1, v1) # h) t else v)"

text \<open>
  Stretches \<open>(x, y, v)\<close>: from \<open>x\<close> to \<open>y\<close> at brightness \<open>v\<close>. \<open>tiles a b ps\<close> says that
  the stretches \<open>ps\<close> follow one another from \<open>a\<close> to \<open>b\<close>, each of positive length, with
  no gap and no overlap: every instant from \<open>a\<close> to \<open>b\<close> lies in exactly one of them.
  \<open>weighted ps\<close> adds brightness times duration over the stretches in their order, with
  the operations the program uses (\<open>sum += brightness * (now - lut)\<close>). \<open>carried h ps\<close>
  says that throughout each stretch the cell had the brightness of the stretch.
\<close>

fun tiles :: "rat \<Rightarrow> rat \<Rightarrow> (rat \<times> rat \<times> int) list \<Rightarrow> bool" where
  "tiles a b [] = (a = b)"
| "tiles a b ((x, y, v) # ps) = (x = a \<and> x < y \<and> tiles y b ps)"

definition weighted :: "(rat \<times> rat \<times> int) list \<Rightarrow> rat" where
  "weighted ps = foldl (\<lambda>acc (x, y, v). acc + of_int v * (y - x)) 0 ps"

definition carried :: "(rat \<times> int) list \<Rightarrow> (rat \<times> rat \<times> int) list \<Rightarrow> bool" where
  "carried h ps \<longleftrightarrow> (\<forall>(x, y, v) \<in> set ps. \<forall>t. x \<le> t \<and> t < y \<longrightarrow> level_at h t = v)"

text \<open>
  The accumulated sum of cell \<open>(r, c)\<close> is the weighted sum over stretches that tile the
  session from its start to the stamp of the cell, each at the brightness the cell had.
\<close>

definition tiled :: "nat \<Rightarrow> nat \<Rightarrow> track \<Rightarrow> instrument \<Rightarrow> bool" where
  "tiled r c k s \<longleftrightarrow>
     (case open_session k of
        None \<Rightarrow> True
      | Some h \<Rightarrow>
          (case last_update_time s ! r ! c of
             None \<Rightarrow> False
           | Some l \<Rightarrow>
               (\<exists>ps. tiles (fst (hd h)) l ps \<and> carried h ps \<and>
                     brightness_time_sum s ! r ! c = weighted ps)))"

text \<open>The operations after which cell \<open>(r, c)\<close> is stamped with the time of the operation.\<close>

fun stamps :: "nat \<Rightarrow> nat \<Rightarrow> action \<Rightarrow> bool" where
  "stamps r c (Edit row col v ok) = (ok \<and> row = r \<and> col = c)"
| "stamps r c Tick = True"
| "stamps r c TurnOn = True"
| "stamps r c TurnOff = False"

section \<open>Shape of the matrices and cell views\<close>

definition shaped :: "'a list list \<Rightarrow> bool" where
  "shaped m \<longleftrightarrow> length m = rows \<and> (\<forall>i < rows. length (m ! i) = cols)"

definition wf_state :: "instrument \<Rightarrow> bool" where
  "wf_state s \<longleftrightarrow>
     shaped (brightness_values s) \<and> shaped (brightness_time_sum s) \<and> shaped (last_update_time s)"

text \<open>The three per-cell fields of cell \<open>(r, c)\<close>, and everything else of the state.\<close>

definition cellv :: "instrument \<Rightarrow> nat \<Rightarrow> nat \<Rightarrow> int \<times> rat \<times> rat option" where
  "cellv s r c =
     (brightness_values s ! r ! c, brightness_time_sum s ! r ! c, last_update_time s ! r ! c)"

definition frame ::
  "instrument \<Rightarrow> bool option \<times> bool \<times> bool \<times> rat option \<times> rat option \<times> out_event list" where
  "frame s =
     (serial_conn s, simulation_mode s, instrument_on s, start_time s, start_datetime s, outlog s)"

text \<open>A loop body that rewrites the fields of its own cell by \<open>g\<close> and touches nothing else.\<close>

definition cell_local ::
  "(nat \<Rightarrow> nat \<Rightarrow> instrument \<Rightarrow> instrument) \<Rightarrow>
   (int \<times> rat \<times> rat option \<Rightarrow> int \<times> rat \<times> rat option) \<Rightarrow> bool" where
  "cell_local body g \<longleftrightarrow>
     (\<forall>s r c. wf_state s \<and> r < rows \<and> c < cols \<longrightarrow>
        wf_state (body r c s) \<and> frame (body r c s) = frame s \<and>
        (\<forall>r' c'. r' < rows \<and> c' < cols \<longrightarrow>
           cellv (body r c s) r' c' = (if r' = r \<and> c' = c then g (cellv s r c) else cellv s r' c')))"

text \<open>What one pass of each loop does to the fields of a single cell.\<close>

definition open_g :: "rat \<Rightarrow> int \<times> rat \<times> rat option \<Rightarrow> int \<times> rat \<times> rat option" where
  "open_g now = (\<lambda>(b, a, l). (b, a, Some now))"

definition close_g :: "rat \<Rightarrow> int \<times> rat \<times> rat option \<Rightarrow> int \<times> rat \<times> rat option" where
  "close_g now =
     (\<lambda>(b, a, l). case l of None \<Rightarrow> (b, a, l)
        | Some lut \<Rightarrow> if now - lut > 0 then (b, a + of_int b * (now - lut), l) else (b, a, l))"

definition tick_g :: "rat \<Rightarrow> int \<times> rat \<times> rat option \<Rightarrow> int \<times> rat \<times> rat option" where
  "tick_g now =
     (\<lambda>(b, a, l). case l of None \<Rightarrow> (b, a, l)
        | Some lut \<Rightarrow>
            if now - lut > 0 then (b, a + of_int b * (now - lut), Some now) else (b, a, l))"

text \<open>An environment in which every clock read returns \<open>t\<close> and nothing raises.\<close>

definition env_at :: "rat \<Rightarrow> env" where
  "env_at t =
     \<lparr>t_now = t, dt_now = t, write_raises = False, save_raises = False,
      dt_end = t, dt_end2 = t, t_avg = (\<lambda>r c. t)\<rparr>"

text \<open>What an accepted edit does to the fields of the edited cell.\<close>

definition edit_g ::
  "bool \<Rightarrow> rat \<Rightarrow> int \<Rightarrow> int \<times> rat \<times> rat option \<Rightarrow> int \<times> rat \<times> rat option" where
  "edit_g on now v =
     (\<lambda>(b, a, l).
        if on then
          (v, (case l of None \<Rightarrow> a
               | Some lut \<Rightarrow> if now - lut > 0 then a + of_int b * (now - lut) else a),
           Some now)
        else (v, a, l))"

section \<open>Properties of the wire frame\<close>

lemma inner_loop_parts:
  "fold (\<lambda>row ps. ps @ [f row]) xs ps = ps @ map f xs"
  by (induction xs arbitrary: ps) simp_all

lemma outer_loop_parts:
  "fold (\<lambda>col ps. ps @ g col) xs ps = ps @ concat (map g xs)"
  by (induction xs arbitrary: ps) simp_all

lemma parts_column_major:
  "parts bv = concat (map (\<lambda>col. map (\<lambda>row. str_int (bv ! row ! col)) [0..<rows]) [0..<cols])"
  unfolding parts_def inner_loop_parts by (simp add: outer_loop_parts)

lemma str_int_examples:
  "str_int 7 = ''7''" "str_int 42 = ''42''" "str_int 100 = ''100''" "str_int (- 5) = ''-5''"
  by (simp_all add: str_int_def str_nat.simps)

lemma str_int_0: "str_int 0 = ''0''"
  by (simp add: str_int_def str_nat.simps)

lemma join_replicate:
  "join sep (replicate (Suc n) p) = concat (replicate n (p @ sep)) @ p"
  by (induction n) simp_all

lemma fresh_nth: "r < rows \<Longrightarrow> c < cols \<Longrightarrow> fresh v ! r ! c = v"
  by (simp add: fresh_def)

lemma concat_replicate_const:
  "concat (replicate m (replicate n x)) = replicate (m * n) x"
  by (induction m) (simp_all add: replicate_add)

lemma parts_fresh0: "parts (fresh 0) = replicate 96 ''0''"
proof -
  have "parts (fresh 0) = concat (map (\<lambda>col. map (\<lambda>row. ''0'') [0..<rows]) [0..<cols])"
    unfolding parts_column_major
    by (intro arg_cong[where f=concat] map_cong refl) (simp add: fresh_nth str_int_0)
  also have "\<dots> = replicate (cols * rows) ''0''"
    by (simp add: map_replicate_const concat_replicate_const) 
  finally show ?thesis by (simp add: rows_def cols_def)
qed

lemma col_major_index:
  "concat (map (\<lambda>col. map (\<lambda>row. f row col) [0..<n]) [0..<m]) =
   map (\<lambda>k. f (k mod n) (k div n)) [0..<m * n]"
proof (induction m)
  case 0 show ?case by simp
next
  case (Suc m)
  have "map (\<lambda>k. f (k mod n) (k div n)) [m * n..<m * n + n] = map (\<lambda>row. f row m) [0..<n]"
    by (rule nth_equalityI) (auto)
  moreover have "[0..<Suc m * n] = [0..<m * n] @ [m * n..<m * n + n]"
    using upt_add_eq_append[of 0 "m * n" n] by (simp add: add.commute)
  ultimately show ?case using Suc by simp
qed


text \<open>
  C2. The frame built by \<open>send_matrix\<close> is \<open><\<close>, then the 96 values as decimal strings
  joined by commas in column-major order (columns 0..11 outside, rows 0..7 inside, so the
  \<open>k\<close>-th value is that of row \<open>k mod 8\<close>, column \<open>k div 8\<close>), then \<open>>\<close>; the all-zero
  matrix gives \<open><\<close>, 95 times \<open>0,\<close>, then \<open>0\<close> and \<open>>\<close>.
\<close>

theorem transmission_wire_format:
  "transmission bv =
     ''<'' @ join '','' (concat (map (\<lambda>col. map (\<lambda>row. str_int (bv ! row ! col)) [0..<8]) [0..<12]))
       @ ''>''
   \<and> parts bv = map (\<lambda>k. str_int (bv ! (k mod 8) ! (k div 8))) [0..<96]
   \<and> transmission (fresh 0) = ''<'' @ concat (replicate 95 ''0,'') @ ''0'' @ ''>''"
proof (intro conjI)
  show "transmission bv =
     ''<'' @ join '','' (concat (map (\<lambda>col. map (\<lambda>row. str_int (bv ! row ! col)) [0..<8]) [0..<12]))
       @ ''>''"
    using parts_column_major[of bv] by (simp add: transmission_def rows_def cols_def)
  show "parts bv = map (\<lambda>k. str_int (bv ! (k mod 8) ! (k div 8))) [0..<96]"
    using col_major_index[of "\<lambda>row col. str_int (bv ! row ! col)" 8 12] parts_column_major[of bv]
    by (simp add: rows_def cols_def)
  show "transmission (fresh 0) = ''<'' @ concat (replicate 95 ''0,'') @ ''0'' @ ''>''"
    using join_replicate[of "'',''" 95 "''0''"]
    by (simp add: transmission_def parts_fresh0 eval_nat_numeral(1)[symmetric])
qed

section \<open>The loops over all cells\<close>

lemma shaped_fresh: "shaped (fresh v)"
  by (simp add: shaped_def fresh_def)

lemma shaped_upd2: "shaped m \<Longrightarrow> shaped (upd2 m r c v)"
proof -
  assume m: "shaped m"
  have "length (m[r := (m ! r)[c := v]] ! i) = cols" if "i < rows" for i
    using that m by (cases "i = r") (simp_all add: shaped_def)
  then show ?thesis using m by (simp add: shaped_def upd2_def)
qed

lemma nth_upd2:
  "shaped m \<Longrightarrow> r < rows \<Longrightarrow> c < cols \<Longrightarrow> r' < rows \<Longrightarrow> c' < cols \<Longrightarrow>
   upd2 m r c v ! r' ! c' = (if r' = r \<and> c' = c then v else m ! r' ! c')"
  by (auto simp: shaped_def upd2_def nth_list_update)

lemma shaped_eqI:
  assumes "shaped m" "shaped m'" "\<And>r c. r < rows \<Longrightarrow> c < cols \<Longrightarrow> m ! r ! c = m' ! r ! c"
  shows "m = m'"
proof (rule nth_equalityI)
  show "length m = length m'" using assms by (simp add: shaped_def)
next
  fix i assume "i < length m"
  then have i: "i < rows" using assms(1) by (simp add: shaped_def)
  show "m ! i = m' ! i"
  proof (rule nth_equalityI)
    show "length (m ! i) = length (m' ! i)" using assms(1,2) i by (simp add: shaped_def)
  next
    fix j assume "j < length (m ! i)"
    then have "j < cols" using assms(1) i by (simp add: shaped_def)
    then show "m ! i ! j = m' ! i ! j" using assms(3) i by simp
  qed
qed

lemma inner_loop_local:
  assumes loc: "cell_local body g" and r: "r < rows"
  shows "n \<le> cols \<Longrightarrow> wf_state s \<Longrightarrow>
    wf_state (fold (body r) [0..<n] s) \<and> frame (fold (body r) [0..<n] s) = frame s \<and>
    (\<forall>r' c'. r' < rows \<and> c' < cols \<longrightarrow>
       cellv (fold (body r) [0..<n] s) r' c' =
         (if r' = r \<and> c' < n then g (cellv s r' c') else cellv s r' c'))"
proof (induction n)
  case 0
  then show ?case by simp
next
  case (Suc n)
  let ?s = "fold (body r) [0..<n] s"
  have ih: "wf_state ?s" "frame ?s = frame s"
    "\<And>r' c'. r' < rows \<Longrightarrow> c' < cols \<Longrightarrow>
       cellv ?s r' c' = (if r' = r \<and> c' < n then g (cellv s r' c') else cellv s r' c')"
    using Suc by simp_all
  have n: "n < cols" using Suc.prems by simp
  have step: "wf_state (body r n ?s)" "frame (body r n ?s) = frame ?s"
    "\<And>r' c'. r' < rows \<Longrightarrow> c' < cols \<Longrightarrow>
       cellv (body r n ?s) r' c' = (if r' = r \<and> c' = n then g (cellv ?s r n) else cellv ?s r' c')"
    using loc ih(1) r n unfolding cell_local_def by blast+
  have fold_eq: "fold (body r) [0..<Suc n] s = body r n ?s" by simp
  show ?case unfolding fold_eq
    using step(1) step(2) ih(2) by (auto simp: step(3) ih(3) r n less_Suc_eq)
qed

lemma outer_loop_local:
  assumes loc: "cell_local body g"
  shows "n \<le> rows \<Longrightarrow> wf_state s \<Longrightarrow>
    wf_state (fold (\<lambda>r. fold (body r) [0..<cols]) [0..<n] s) \<and>
    frame (fold (\<lambda>r. fold (body r) [0..<cols]) [0..<n] s) = frame s \<and>
    (\<forall>r' c'. r' < rows \<and> c' < cols \<longrightarrow>
       cellv (fold (\<lambda>r. fold (body r) [0..<cols]) [0..<n] s) r' c' =
         (if r' < n then g (cellv s r' c') else cellv s r' c'))"
proof (induction n)
  case 0
  then show ?case by simp
next
  case (Suc n)
  let ?s = "fold (\<lambda>r. fold (body r) [0..<cols]) [0..<n] s"
  have ih: "wf_state ?s" "frame ?s = frame s"
    "\<And>r' c'. r' < rows \<Longrightarrow> c' < cols \<Longrightarrow>
       cellv ?s r' c' = (if r' < n then g (cellv s r' c') else cellv s r' c')"
    using Suc by simp_all
  have n: "n < rows" using Suc.prems by simp
  note row = inner_loop_local[OF loc n order_refl ih(1)]
  have fold_eq: "fold (\<lambda>r. fold (body r) [0..<cols]) [0..<Suc n] s = fold (body n) [0..<cols] ?s"
    by simp
  show ?case unfolding fold_eq
    using row ih(2) by (auto simp: ih(3) n less_Suc_eq)
qed

lemma for_cells_local:
  assumes "cell_local body g" "wf_state s"
  shows "wf_state (for_cells body s)" "frame (for_cells body s) = frame s"
    "\<And>r c. r < rows \<Longrightarrow> c < cols \<Longrightarrow> cellv (for_cells body s) r c = g (cellv s r c)"
  using outer_loop_local[OF assms(1) order_refl assms(2)] unfolding for_cells_def by simp_all

lemma wf_stateD:
  "wf_state s \<Longrightarrow> shaped (brightness_values s)"
  "wf_state s \<Longrightarrow> shaped (brightness_time_sum s)"
  "wf_state s \<Longrightarrow> shaped (last_update_time s)"
  by (simp_all add: wf_state_def)

lemma open_local:
  "cell_local (\<lambda>r c s. s\<lparr>last_update_time := upd2 (last_update_time s) r c (Some now)\<rparr>)
     (open_g now)"
  unfolding cell_local_def
  by (auto simp: wf_state_def frame_def cellv_def open_g_def shaped_upd2 nth_upd2)

lemma close_local: "cell_local (close_cell now) (close_g now)"
  unfolding cell_local_def
  by (auto simp: wf_state_def frame_def cellv_def close_g_def close_cell_def Let_def
      shaped_upd2 nth_upd2 split: option.splits)

lemma tick_local: "cell_local (tick_cell now) (tick_g now)"
  unfolding cell_local_def
  by (auto simp: wf_state_def frame_def cellv_def tick_g_def tick_cell_def Let_def
      shaped_upd2 nth_upd2 split: option.splits)

lemma send_matrix_emit:
  "\<exists>oc. send_matrix e s = emit (Transmit (transmission (brightness_values s)) oc) s"
  by (auto simp: send_matrix_def Let_def)

lemma send_matrix_fields [simp]:
  "serial_conn (send_matrix e s) = serial_conn s"
  "simulation_mode (send_matrix e s) = simulation_mode s"
  "instrument_on (send_matrix e s) = instrument_on s"
  "start_time (send_matrix e s) = start_time s"
  "start_datetime (send_matrix e s) = start_datetime s"
  "brightness_values (send_matrix e s) = brightness_values s"
  "brightness_time_sum (send_matrix e s) = brightness_time_sum s"
  "last_update_time (send_matrix e s) = last_update_time s"
  by (simp_all add: send_matrix_def Let_def emit_def)

lemma emit_fields [simp]:
  "serial_conn (emit ev s) = serial_conn s"
  "simulation_mode (emit ev s) = simulation_mode s"
  "instrument_on (emit ev s) = instrument_on s"
  "start_time (emit ev s) = start_time s"
  "start_datetime (emit ev s) = start_datetime s"
  "brightness_values (emit ev s) = brightness_values s"
  "brightness_time_sum (emit ev s) = brightness_time_sum s"
  "last_update_time (emit ev s) = last_update_time s"
  "outlog (emit ev s) = outlog s @ [ev]"
  by (simp_all add: emit_def)

lemma send_matrix_outlog:
  "\<exists>oc. outlog (send_matrix e s) = outlog s @ [Transmit (transmission (brightness_values s)) oc]"
  by (auto simp: send_matrix_def Let_def)

lemma wf_state_send [simp]: "wf_state (send_matrix e s) = wf_state s"
  by (simp add: wf_state_def)

lemma cellv_send [simp]: "cellv (send_matrix e s) = cellv s"
  by (simp add: cellv_def fun_eq_iff)

section \<open>Turning on\<close>

lemma frame_simps:
  "frame s' = frame s \<Longrightarrow> serial_conn s' = serial_conn s"
  "frame s' = frame s \<Longrightarrow> simulation_mode s' = simulation_mode s"
  "frame s' = frame s \<Longrightarrow> instrument_on s' = instrument_on s"
  "frame s' = frame s \<Longrightarrow> start_time s' = start_time s"
  "frame s' = frame s \<Longrightarrow> start_datetime s' = start_datetime s"
  "frame s' = frame s \<Longrightarrow> outlog s' = outlog s"
  by (simp_all add: frame_def)

lemma matrices_from_cells:
  assumes "wf_state s'"
    and "\<And>r c. r < rows \<Longrightarrow> c < cols \<Longrightarrow> cellv s' r c = (mb ! r ! c, ma ! r ! c, ml ! r ! c)"
    and "shaped mb" "shaped ma" "shaped ml"
  shows "brightness_values s' = mb" "brightness_time_sum s' = ma" "last_update_time s' = ml"
proof -
  show "brightness_values s' = mb"
    using assms(1,3) assms(2) by (intro shaped_eqI) (simp_all add: wf_state_def cellv_def)
  show "brightness_time_sum s' = ma"
    using assms(1,4) assms(2) by (intro shaped_eqI) (simp_all add: wf_state_def cellv_def)
  show "last_update_time s' = ml"
    using assms(1,5) assms(2) by (intro shaped_eqI) (simp_all add: wf_state_def cellv_def)
qed

lemma turn_on_cells:
  assumes "wf_state s"
  shows "wf_state (turn_on e s)"
    and "\<And>r c. r < rows \<Longrightarrow> c < cols \<Longrightarrow>
           cellv (turn_on e s) r c = (brightness_values s ! r ! c, 0, Some (t_now e))"
proof -
  let ?s1 = "s\<lparr>instrument_on := True, start_time := Some (t_now e),
                 start_datetime := Some (dt_now e), brightness_time_sum := fresh 0\<rparr>"
  have wf1: "wf_state ?s1" using assms by (simp add: wf_state_def shaped_fresh)
  note loop = for_cells_local[OF open_local[of "t_now e"] wf1]
  show "wf_state (turn_on e s)" using loop(1) by (simp add: turn_on_def Let_def)
  fix r c assume "r < rows" "c < cols"
  then show "cellv (turn_on e s) r c = (brightness_values s ! r ! c, 0, Some (t_now e))"
    using loop(3)[of r c] by (simp add: turn_on_def Let_def open_g_def cellv_def fresh_nth)
qed

lemma turn_on_frame:
  assumes "wf_state s"
  shows "instrument_on (turn_on e s)" "start_time (turn_on e s) = Some (t_now e)"
    "start_datetime (turn_on e s) = Some (dt_now e)"
    "serial_conn (turn_on e s) = serial_conn s" "simulation_mode (turn_on e s) = simulation_mode s"
proof -
  let ?s1 = "s\<lparr>instrument_on := True, start_time := Some (t_now e),
                 start_datetime := Some (dt_now e), brightness_time_sum := fresh 0\<rparr>"
  have wf1: "wf_state ?s1" using assms by (simp add: wf_state_def shaped_fresh)
  note fr = frame_simps[OF for_cells_local(2)[OF open_local[of "t_now e"] wf1]]
  show "instrument_on (turn_on e s)" "start_time (turn_on e s) = Some (t_now e)"
    "start_datetime (turn_on e s) = Some (dt_now e)"
    "serial_conn (turn_on e s) = serial_conn s" "simulation_mode (turn_on e s) = simulation_mode s"
    using fr by (simp_all add: turn_on_def Let_def)
qed

lemma turn_on_matrices:
  assumes "wf_state s"
  shows "brightness_values (turn_on e s) = brightness_values s"
    "brightness_time_sum (turn_on e s) = fresh 0"
    "last_update_time (turn_on e s) = fresh (Some (t_now e))"
proof -
  have cells: "\<And>r c. r < rows \<Longrightarrow> c < cols \<Longrightarrow> cellv (turn_on e s) r c =
      (brightness_values s ! r ! c, fresh 0 ! r ! c, fresh (Some (t_now e)) ! r ! c)"
    using turn_on_cells(2)[OF assms] by (simp add: fresh_nth)
  have sh: "shaped (brightness_values s)" using assms by (simp add: wf_state_def)
  note m = matrices_from_cells[OF turn_on_cells(1)[OF assms] cells sh shaped_fresh shaped_fresh]
  show "brightness_values (turn_on e s) = brightness_values s"
    "brightness_time_sum (turn_on e s) = fresh 0"
    "last_update_time (turn_on e s) = fresh (Some (t_now e))"
    using m by simp_all
qed

lemma turn_on_outlog:
  assumes "wf_state s"
  shows "\<exists>oc. outlog (turn_on e s) = outlog s @ [Transmit (transmission (brightness_values s)) oc]"
proof -
  let ?s1 = "s\<lparr>instrument_on := True, start_time := Some (t_now e),
                 start_datetime := Some (dt_now e), brightness_time_sum := fresh 0\<rparr>"
  let ?s2 = "for_cells
     (\<lambda>r c s. s\<lparr>last_update_time := upd2 (last_update_time s) r c (Some (t_now e))\<rparr>) ?s1"
  have wf1: "wf_state ?s1" using assms by (simp add: wf_state_def shaped_fresh)
  note loop = for_cells_local[OF open_local[of "t_now e"] wf1]
  have l: "outlog ?s2 = outlog s" using frame_simps(6)[OF loop(2)] by simp
  have on: "turn_on e s = send_matrix e ?s2" by (simp add: turn_on_def Let_def)
  have b: "brightness_values ?s2 = brightness_values s"
    using turn_on_matrices(1)[OF assms, of e] unfolding on by simp
  obtain oc where "outlog (send_matrix e ?s2) = outlog ?s2 @ [Transmit (transmission (brightness_values ?s2)) oc]"
    using send_matrix_outlog by blast
  then show ?thesis unfolding l b on by blast
qed

lemma wf_state_init: "wf_state (init sim conn e)"
  by (simp add: init_def wf_state_def shaped_fresh)

text \<open>
  C5. \<open>_turn_on\<close> records \<open>start_time = now\<close> and \<open>start_datetime = now\<close>, resets every
  accumulated sum to 0, sets every \<open>last_update_time\<close> to \<open>now\<close>, leaves the brightness
  values as they are, and then sends the current matrix: exactly one transmission, of the
  frame of the matrix as it was before the call.
\<close>

theorem turn_on_starts_session:
  assumes "wf_state s"
  shows "instrument_on (turn_on e s)
    \<and> start_time (turn_on e s) = Some (t_now e)
    \<and> start_datetime (turn_on e s) = Some (dt_now e)
    \<and> brightness_time_sum (turn_on e s) = fresh 0
    \<and> last_update_time (turn_on e s) = fresh (Some (t_now e))
    \<and> brightness_values (turn_on e s) = brightness_values s
    \<and> (\<exists>oc. outlog (turn_on e s) =
          outlog s @ [Transmit (transmission (brightness_values s)) oc])"
  using turn_on_frame(1-3)[OF assms, of e] turn_on_matrices[OF assms, of e]
    turn_on_outlog[OF assms, of e]
  by simp

theorem turn_on_starts_session_witness:
  "wf_state (init True None (env_at 0))
    \<and> instrument_on (turn_on (env_at 5) (init True None (env_at 0)))
    \<and> start_time (turn_on (env_at 5) (init True None (env_at 0))) = Some 5
    \<and> start_datetime (turn_on (env_at 5) (init True None (env_at 0))) = Some 5
    \<and> brightness_time_sum (turn_on (env_at 5) (init True None (env_at 0))) = fresh 0
    \<and> last_update_time (turn_on (env_at 5) (init True None (env_at 0))) = fresh (Some 5)"
  using turn_on_starts_session[OF wf_state_init, of "env_at 5" True None "env_at 0"] wf_state_init
  by (simp add: env_at_def)

section \<open>Reading averages and editing cells\<close>

lemma at2_shaped: "shaped m \<Longrightarrow> r < rows \<Longrightarrow> c < cols \<Longrightarrow> at2 m r c = Some (m ! r ! c)"
  by (simp add: at2_def shaped_def)

lemma put2_shaped: "shaped m \<Longrightarrow> r < rows \<Longrightarrow> c < cols \<Longrightarrow> put2 m r c v = Some (upd2 m r c v)"
  by (simp add: put2_def upd2_def shaped_def)

lemma calculate_average_in_grid:
  assumes "wf_state s" "r < rows" "c < cols"
  shows "calculate_average r c now s =
     Some (if start_time s = None \<and> \<not> instrument_on s then 0
           else if (case start_time s of Some st \<Rightarrow> now - st | None \<Rightarrow> 0) \<le> 0
             then of_int (brightness_values s ! r ! c)
           else (brightness_time_sum s ! r ! c +
                 (case last_update_time s ! r ! c of
                    Some l \<Rightarrow> (now - l) * of_int (brightness_values s ! r ! c) | None \<Rightarrow> 0))
                / (case start_time s of Some st \<Rightarrow> now - st | None \<Rightarrow> 0))"
  using assms by (simp add: calculate_average_def Let_def at2_shaped wf_stateD)

text \<open>
  C3. For a cell of the grid, \<open>_calculate_average\<close> returns 0.0 when no session has
  started (off and \<open>start_time\<close> absent), the brightness of the cell as a float when
  \<open>now - start_time \<le> 0\<close>, and otherwise \<open>(accumulated + partial) / total_time\<close>, where
  \<open>partial\<close> is brightness times \<open>now - last_update_time\<close> if the stamp is set and 0 if not.
  It never raises there.
\<close>

theorem calculate_average_cases:
  assumes "wf_state s" "r < rows" "c < cols"
  shows "(start_time s = None \<and> \<not> instrument_on s \<longrightarrow> calculate_average r c now s = Some 0)
    \<and> (\<forall>st. start_time s = Some st \<and> now - st \<le> 0 \<longrightarrow>
          calculate_average r c now s = Some (of_int (brightness_values s ! r ! c)))
    \<and> (\<forall>st. start_time s = Some st \<and> now - st > 0 \<longrightarrow>
          calculate_average r c now s =
            Some ((brightness_time_sum s ! r ! c +
                   (case last_update_time s ! r ! c of
                      Some l \<Rightarrow> of_int (brightness_values s ! r ! c) * (now - l)
                    | None \<Rightarrow> 0)) / (now - st)))"
  using calculate_average_in_grid[OF assms, of now]
  by (auto simp: mult.commute split: option.splits)


theorem calculate_average_cases_witness:
  "wf_state (init True None (env_at 0)) \<and> (0::nat) < rows \<and> (0::nat) < cols
   \<and> start_time (init True None (env_at 0)) = None
   \<and> \<not> instrument_on (init True None (env_at 0))
   \<and> calculate_average 0 0 9 (init True None (env_at 0)) = Some 0
   \<and> wf_state (turn_on (env_at 5) (init True None (env_at 0)))
   \<and> start_time (turn_on (env_at 5) (init True None (env_at 0))) = Some 5
   \<and> (5::rat) - 5 \<le> 0
   \<and> calculate_average 0 0 5 (turn_on (env_at 5) (init True None (env_at 0))) =
        Some (of_int (brightness_values (turn_on (env_at 5) (init True None (env_at 0))) ! 0 ! 0))
   \<and> (9::rat) - 5 > 0
   \<and> calculate_average 0 0 9 (turn_on (env_at 5) (init True None (env_at 0))) =
        Some ((brightness_time_sum (turn_on (env_at 5) (init True None (env_at 0))) ! 0 ! 0 +
               (case last_update_time (turn_on (env_at 5) (init True None (env_at 0))) ! 0 ! 0 of
                  Some l \<Rightarrow>
                    of_int (brightness_values (turn_on (env_at 5) (init True None (env_at 0))) ! 0 ! 0)
                      * (9 - l)
                | None \<Rightarrow> 0)) / (9 - 5))"
proof -
  have g: "(0::nat) < rows" "(0::nat) < cols" by (simp_all add: rows_def cols_def)
  have w0: "wf_state (init True None (env_at 0))" by (rule wf_state_init)
  have w1: "wf_state (turn_on (env_at 5) (init True None (env_at 0)))"
    by (rule turn_on_cells(1)[OF w0])
  have s0: "start_time (init True None (env_at 0)) = None"
    "\<not> instrument_on (init True None (env_at 0))"
    by (simp_all add: init_def)
  have s1: "start_time (turn_on (env_at 5) (init True None (env_at 0))) = Some 5"
    using turn_on_frame(2)[OF w0, of "env_at 5"] by (simp add: env_at_def)
  show ?thesis
    using calculate_average_cases[OF w0 g, of 9] calculate_average_cases[OF w1 g, of 5]
      calculate_average_cases[OF w1 g, of 9] g w0 w1 s0 s1
    by simp
qed


lemma on_button_click_off:
  assumes "wf_state s" "\<not> instrument_on s" "row < rows" "col < cols"
  shows "on_button_click row col (answers v True) e s =
     Some (s\<lparr>brightness_values := upd2 (brightness_values s) row col v\<rparr>)"
  using assms by (simp add: on_button_click_def answers_def at2_shaped put2_shaped wf_stateD)

lemma on_button_click_on:
  assumes "wf_state s" "instrument_on s" "row < rows" "col < cols"
  shows "on_button_click row col (answers v True) e s =
     Some (send_matrix e
       (s\<lparr>brightness_time_sum :=
            (case last_update_time s ! row ! col of
               None \<Rightarrow> brightness_time_sum s
             | Some l \<Rightarrow>
                 if t_now e - l > 0
                 then upd2 (brightness_time_sum s) row col
                        (brightness_time_sum s ! row ! col
                           + of_int (brightness_values s ! row ! col) * (t_now e - l))
                 else brightness_time_sum s),
          last_update_time := upd2 (last_update_time s) row col (Some (t_now e)),
          brightness_values := upd2 (brightness_values s) row col v\<rparr>))"
  using assms
  by (simp add: on_button_click_def answers_def at2_shaped put2_shaped wf_stateD Let_def split: option.splits)

lemma on_button_click_cancel:
  assumes "wf_state s" "row < rows" "col < cols"
  shows "on_button_click row col (answers v False) e s = Some s"
  using assms by (simp add: on_button_click_def answers_def at2_shaped wf_stateD)


text \<open>
  C7. While the instrument is off, an edit of cell \<open>(r, c)\<close> changes nothing but the
  brightness of that cell: the accumulated sums, the stamps, the session fields and the
  trace of transmissions are those of the state before (a cancelled dialog changes nothing).
\<close>

theorem edit_while_off:
  assumes "wf_state s" "\<not> instrument_on s" "r < rows" "c < cols"
  shows "on_button_click r c dlg e s =
     Some (case dlg (brightness_values s ! r ! c) 0 100 1 of
             (v, ok) \<Rightarrow>
               if ok
               then s\<lparr>brightness_values :=
                       (brightness_values s)[r := (brightness_values s ! r)[c := v]]\<rparr>
               else s)"
  using assms
  by (simp add: on_button_click_def at2_shaped put2_shaped wf_stateD upd2_def split: prod.splits)

theorem edit_while_off_witness:
  "wf_state (init True None (env_at 0)) \<and> \<not> instrument_on (init True None (env_at 0))
   \<and> (0::nat) < rows \<and> (0::nat) < cols
   \<and> on_button_click 0 0 (answers 30 True) (env_at 1) (init True None (env_at 0)) =
       Some ((init True None (env_at 0))\<lparr>brightness_values :=
          (brightness_values (init True None (env_at 0)))
            [0 := (brightness_values (init True None (env_at 0)) ! 0)[0 := 30]]\<rparr>)"
proof -
  have g: "(0::nat) < rows" "(0::nat) < cols" by (simp_all add: rows_def cols_def)
  have off: "\<not> instrument_on (init True None (env_at 0))" by (simp add: init_def)
  show ?thesis
    using edit_while_off[OF wf_state_init off g, where dlg = "answers 30 True" and e = "env_at 1"]
      wf_state_init off g by (simp add: answers_def)
qed




text \<open>
  C9. \<open>_turn_off\<close> while off returns the state as it is (nothing changes, nothing is
  sent), and so does any repetition.
\<close>

theorem turn_off_when_off:
  assumes "\<not> instrument_on s"
  shows "turn_off e s = s \<and> turn_off e' (turn_off e s) = s"
  using assms by (simp add: turn_off_def)

theorem turn_off_when_off_witness:
  "\<not> instrument_on (init True None (env_at 0))
   \<and> turn_off (env_at 1) (init True None (env_at 0)) = init True None (env_at 0)
   \<and> turn_off (env_at 2) (turn_off (env_at 1) (init True None (env_at 0))) = init True None (env_at 0)"
proof -
  have off: "\<not> instrument_on (init True None (env_at 0))" by (simp add: init_def)
  show ?thesis
    using turn_off_when_off[OF off, where e = "env_at 1" and e' = "env_at 2"] off by auto
qed

lemma turn_off_session_cleared:
  "\<not> instrument_on (turn_off e s)"
  "instrument_on s \<Longrightarrow> start_time (turn_off e s) = None"
  "instrument_on s \<Longrightarrow> start_datetime (turn_off e s) = None"
  "instrument_on s \<Longrightarrow> last_update_time (turn_off e s) = fresh None"
  by (simp_all add: turn_off_def Let_def)

text \<open>
  C10. After a completed transition from on to off, \<open>_calculate_average\<close> returns 0.0 for
  every cell and every instant: the averages of the closed session can no longer be read
  from the object.
\<close>

theorem average_after_turn_off:
  assumes "instrument_on s"
  shows "calculate_average r c now (turn_off e s) = Some 0"
  using turn_off_session_cleared(1,2)[where e = e and s = s] assms by (simp add: calculate_average_def)

section \<open>Turning off\<close>

lemma those_map_Some:
  "(\<And>x. x \<in> set xs \<Longrightarrow> f x = Some (g x)) \<Longrightarrow> those (map f xs) = Some (map g xs)"
  by (induction xs) simp_all

lemma close_g_stamp: "snd (snd (close_g now x)) = snd (snd x)"
  by (cases x) (simp add: close_g_def split: option.splits)

lemma turn_off_unfold:
  assumes "instrument_on s"
  shows "turn_off e s =
    (let s3 = send_matrix e ((for_cells (close_cell (t_now e)) s)\<lparr>brightness_values := fresh 0\<rparr>)
     in (emit (case save_session_data e s3 of Some summ \<Rightarrow> Saved summ | None \<Rightarrow> SaveError) s3)
          \<lparr>instrument_on := False, start_time := None, start_datetime := None,
            last_update_time := fresh None\<rparr>)"
  using assms by (simp add: turn_off_def Let_def split: option.splits)

lemma closing_state:
  fixes e :: env and s :: instrument
  assumes "wf_state s"
  defines "s3 \<equiv> send_matrix e ((for_cells (close_cell (t_now e)) s)\<lparr>brightness_values := fresh 0\<rparr>)"
  shows "wf_state s3" "brightness_values s3 = fresh 0"
    "start_time s3 = start_time s" "start_datetime s3 = start_datetime s"
    "instrument_on s3 = instrument_on s"
    "\<exists>oc. outlog s3 = outlog s @ [Transmit (transmission (fresh 0)) oc]"
    "\<And>r c. r < rows \<Longrightarrow> c < cols \<Longrightarrow>
       brightness_time_sum s3 ! r ! c = fst (snd (close_g (t_now e) (cellv s r c)))"
    "\<And>r c. r < rows \<Longrightarrow> c < cols \<Longrightarrow> last_update_time s3 ! r ! c = last_update_time s ! r ! c"
proof -
  let ?s1 = "for_cells (close_cell (t_now e)) s"
  note loop = for_cells_local[OF close_local[of "t_now e"] assms(1)]
  note fr = frame_simps[OF loop(2)]
  show "wf_state s3" using loop(1) by (simp add: s3_def wf_state_def shaped_fresh)
  show "brightness_values s3 = fresh 0" by (simp add: s3_def)
  show "start_time s3 = start_time s" "start_datetime s3 = start_datetime s"
    "instrument_on s3 = instrument_on s"
    using fr by (simp_all add: s3_def)
  obtain oc where "outlog s3 = outlog (?s1\<lparr>brightness_values := fresh 0\<rparr>) @
      [Transmit (transmission (brightness_values (?s1\<lparr>brightness_values := fresh 0\<rparr>))) oc]"
    unfolding s3_def using send_matrix_outlog by blast
  then show "\<exists>oc. outlog s3 = outlog s @ [Transmit (transmission (fresh 0)) oc]"
    using fr(6) by auto
  fix r c assume rc: "r < rows" "c < cols"
  have "brightness_time_sum s3 ! r ! c = fst (snd (cellv ?s1 r c))"
    by (simp add: s3_def cellv_def)
  then show "brightness_time_sum s3 ! r ! c = fst (snd (close_g (t_now e) (cellv s r c)))"
    using loop(3)[OF rc] by simp
  have "last_update_time s3 ! r ! c = snd (snd (cellv ?s1 r c))"
    by (simp add: s3_def cellv_def)
  then show "last_update_time s3 ! r ! c = last_update_time s ! r ! c"
    using loop(3)[OF rc] by (simp add: close_g_stamp) (simp add: cellv_def)
qed

lemma turn_off_on_fields:
  assumes "wf_state s" "instrument_on s"
  shows "wf_state (turn_off e s)" "brightness_values (turn_off e s) = fresh 0"
    "\<And>r c. r < rows \<Longrightarrow> c < cols \<Longrightarrow>
       brightness_time_sum (turn_off e s) ! r ! c = fst (snd (close_g (t_now e) (cellv s r c)))"
    "serial_conn (turn_off e s) = serial_conn s" "simulation_mode (turn_off e s) = simulation_mode s"
proof -
  note cs = closing_state[OF assms(1), where e = e]
  show "wf_state (turn_off e s)"
    using cs(1) by (simp add: turn_off_unfold[OF assms(2)] Let_def wf_state_def shaped_fresh)
  show "brightness_values (turn_off e s) = fresh 0"
    using cs(2) by (simp add: turn_off_unfold[OF assms(2)] Let_def)
  show "\<And>r c. r < rows \<Longrightarrow> c < cols \<Longrightarrow>
       brightness_time_sum (turn_off e s) ! r ! c = fst (snd (close_g (t_now e) (cellv s r c)))"
    using cs(7) by (simp add: turn_off_unfold[OF assms(2)] Let_def)
  note loop = for_cells_local[OF close_local[of "t_now e"] assms(1)]
  show "serial_conn (turn_off e s) = serial_conn s" "simulation_mode (turn_off e s) = simulation_mode s"
    using frame_simps(1,2)[OF loop(2)] by (simp_all add: turn_off_unfold[OF assms(2)] Let_def)
qed

lemma turn_off_on_outlog:
  assumes "wf_state s" "instrument_on s"
  shows "\<exists>oc. outlog (turn_off e s) =
     outlog s @ [Transmit (transmission (fresh 0)) oc,
       (case save_session_data e
              (send_matrix e ((for_cells (close_cell (t_now e)) s)\<lparr>brightness_values := fresh 0\<rparr>))
        of Some summ \<Rightarrow> Saved summ | None \<Rightarrow> SaveError)]"
  using closing_state(6)[OF assms(1), where e = e]
  by (auto simp: turn_off_unfold[OF assms(2)] Let_def)

text \<open>
  C6. \<open>_turn_off\<close> on a running session sends the all-zero matrix and only then attempts
  to save; whatever the save does, and in particular when it raises, the brightness is all
  zero, the session is inactive, \<open>start_time\<close> and \<open>start_datetime\<close> are cleared and every
  stamp is unset.
\<close>

theorem turn_off_completes:
  assumes "wf_state s" "instrument_on s"
  shows "brightness_values (turn_off e s) = fresh 0
    \<and> \<not> instrument_on (turn_off e s)
    \<and> start_time (turn_off e s) = None
    \<and> start_datetime (turn_off e s) = None
    \<and> last_update_time (turn_off e s) = fresh None
    \<and> (\<exists>oc ev. outlog (turn_off e s) = outlog s @ [Transmit (transmission (fresh 0)) oc, ev]
          \<and> (ev = SaveError \<or> (\<exists>summ. ev = Saved summ))
          \<and> (save_raises e \<longrightarrow> ev = SaveError))"
proof -
  obtain oc where "outlog (turn_off e s) =
     outlog s @ [Transmit (transmission (fresh 0)) oc,
       (case save_session_data e
              (send_matrix e ((for_cells (close_cell (t_now e)) s)\<lparr>brightness_values := fresh 0\<rparr>))
        of Some summ \<Rightarrow> Saved summ | None \<Rightarrow> SaveError)]"
    (is "_ = _ @ [_, ?ev]")
    using turn_off_on_outlog[OF assms] by blast
  moreover have "?ev = SaveError \<or> (\<exists>summ. ?ev = Saved summ)"
    by (simp split: option.splits)
  moreover have "save_raises e \<longrightarrow> ?ev = SaveError"
    by (simp add: save_session_data_def Let_def)
  ultimately have "\<exists>oc ev. outlog (turn_off e s) = outlog s @ [Transmit (transmission (fresh 0)) oc, ev]
          \<and> (ev = SaveError \<or> (\<exists>summ. ev = Saved summ))
          \<and> (save_raises e \<longrightarrow> ev = SaveError)"
    by blast
  then show ?thesis
    using turn_off_on_fields(2)[OF assms, where e = e] turn_off_session_cleared[where e = e and s = s] assms(2)
    by simp
qed

lemma save_session_data_averages:
  assumes "wf_state s" "\<not> save_raises e"
  shows "\<exists>summ. save_session_data e s = Some summ \<and>
     (\<forall>r c. r < rows \<and> c < cols \<longrightarrow>
        Some (averages summ ! r ! c) = calculate_average r c (t_avg e r c) s) \<and>
     shaped (averages summ)"
proof -
  define A where "A = (\<lambda>r c. the (calculate_average r c (t_avg e r c) s))"
  have cell: "calculate_average r c (t_avg e r c) s = Some (A r c)" if "r < rows" "c < cols" for r c
    using calculate_average_in_grid[OF assms(1) that] unfolding A_def by (metis option.sel)
  have row: "those (map (\<lambda>c. calculate_average r c (t_avg e r c) s) [0..<cols]) =
      Some (map (A r) [0..<cols])" if "r < rows" for r
    by (rule those_map_Some) (simp add: cell that)
  have all: "those (map (\<lambda>r. those (map (\<lambda>c. calculate_average r c (t_avg e r c) s) [0..<cols]))
      [0..<rows]) = Some (map (\<lambda>r. map (A r) [0..<cols]) [0..<rows])"
    by (rule those_map_Some) (simp add: row)
  show ?thesis
    using assms(2) cell by (simp add: save_session_data_def Let_def all shaped_def)
qed

section \<open>A session of length zero\<close>

lemma saved_average_turn_off:
  assumes "wf_state s" "instrument_on s" "\<not> save_raises e" "r < rows" "c < cols"
  shows "saved_average r c (turn_off e s) =
     calculate_average r c (t_avg e r c)
       (send_matrix e ((for_cells (close_cell (t_now e)) s)\<lparr>brightness_values := fresh 0\<rparr>))"
proof -
  let ?s3 = "send_matrix e ((for_cells (close_cell (t_now e)) s)\<lparr>brightness_values := fresh 0\<rparr>)"
  note cs = closing_state[OF assms(1), where e = e]
  obtain summ where summ: "save_session_data e ?s3 = Some summ"
    "\<And>r c. r < rows \<Longrightarrow> c < cols \<Longrightarrow>
        Some (averages summ ! r ! c) = calculate_average r c (t_avg e r c) ?s3"
    "shaped (averages summ)"
    using save_session_data_averages[OF cs(1) assms(3)] by blast
  obtain oc where "outlog (turn_off e s) = outlog s @ [Transmit (transmission (fresh 0)) oc, Saved summ]"
    using turn_off_on_outlog[OF assms(1,2), where e = e] summ(1) by auto
  then have "saved_average r c (turn_off e s) = at2 (averages summ) r c"
    by (simp add: saved_average_def)
  then show ?thesis
    using summ(2)[OF assms(4,5)] at2_shaped[OF summ(3) assms(4,5)] by simp
qed

lemma saved_average_zero_length:
  assumes "wf_state s" "instrument_on s" "start_time s = Some t" "t_avg e r c \<le> t"
    "\<not> save_raises e" "r < rows" "c < cols"
  shows "saved_average r c (turn_off e s) = Some 0"
proof -
  let ?s3 = "send_matrix e ((for_cells (close_cell (t_now e)) s)\<lparr>brightness_values := fresh 0\<rparr>)"
  note cs = closing_state[OF assms(1), where e = e]
  have "calculate_average r c (t_avg e r c) ?s3 = Some 0"
    using calculate_average_in_grid[OF cs(1) assms(6,7), of "t_avg e r c"] cs(2,3) assms(3,4,6,7)
    by (simp add: fresh_nth)
  then show ?thesis
    using saved_average_turn_off[OF assms(1,2,5,6,7)] by simp
qed

text \<open>
  C4, as amended. When \<open>_turn_off\<close> runs at the instant of \<open>_turn_on\<close> and the save does
  not raise, the average saved for a cell is 0.0: the degenerate branch returns the
  brightness, which \<open>_turn_off\<close> has set to zero before saving. There is no division
  error. Read at that instant before \<open>_turn_off\<close>, the average is the brightness of the
  cell (30.0 for a cell at 30).
\<close>

theorem zero_length_session_average:
  assumes "wf_state s" "instrument_on s" "start_time s = Some t" "t_avg e r c \<le> t"
    "\<not> save_raises e" "r < rows" "c < cols"
  shows "saved_average r c (turn_off e s) = Some 0
    \<and> calculate_average r c t s = Some (of_int (brightness_values s ! r ! c))"
  using saved_average_zero_length[OF assms] calculate_average_in_grid[OF assms(1,6,7), of t] assms(3)
  by simp

lemma staged_30:
  "wf_state ((init True None (env_at 0))\<lparr>brightness_values := upd2 (fresh 0) 0 0 30\<rparr>)"
  using wf_state_init[of True None "env_at 0"]
  by (simp add: wf_state_def shaped_upd2 shaped_fresh)

theorem zero_length_session_average_witness:
  "wf_state (turn_on (env_at 0) ((init True None (env_at 0))\<lparr>brightness_values := upd2 (fresh 0) 0 0 30\<rparr>))
   \<and> instrument_on (turn_on (env_at 0) ((init True None (env_at 0))\<lparr>brightness_values := upd2 (fresh 0) 0 0 30\<rparr>))
   \<and> start_time (turn_on (env_at 0) ((init True None (env_at 0))\<lparr>brightness_values := upd2 (fresh 0) 0 0 30\<rparr>)) = Some 0
   \<and> t_avg (env_at 0) 0 0 \<le> 0 \<and> \<not> save_raises (env_at 0) \<and> (0::nat) < rows \<and> (0::nat) < cols
   \<and> saved_average 0 0 (turn_off (env_at 0)
        (turn_on (env_at 0) ((init True None (env_at 0))\<lparr>brightness_values := upd2 (fresh 0) 0 0 30\<rparr>))) = Some 0
   \<and> calculate_average 0 0 0
        (turn_on (env_at 0) ((init True None (env_at 0))\<lparr>brightness_values := upd2 (fresh 0) 0 0 30\<rparr>)) = Some 30"
proof -
  let ?s = "turn_on (env_at 0) ((init True None (env_at 0))\<lparr>brightness_values := upd2 (fresh 0) 0 0 30\<rparr>)"
  have g: "(0::nat) < rows" "(0::nat) < cols" by (simp_all add: rows_def cols_def)
  have w: "wf_state ?s" by (rule turn_on_cells(1)[OF staged_30])
  have on: "instrument_on ?s" by (rule turn_on_frame(1)[OF staged_30])
  have st: "start_time ?s = Some 0"
    using turn_on_frame(2)[OF staged_30, where e = "env_at 0"] by (simp add: env_at_def)
  have e: "t_avg (env_at 0) 0 0 \<le> 0" "\<not> save_raises (env_at 0)" by (simp_all add: env_at_def)
  have b: "brightness_values ?s ! 0 ! 0 = 30"
    using turn_on_matrices(1)[OF staged_30, where e = "env_at 0"] g
    by (simp add: nth_upd2 shaped_fresh)
  show ?thesis
    using zero_length_session_average[OF w on st e g] w on st e g b by simp
qed

text \<open>
  C4 as stated fails: with cell (0, 0) at 30, TurnOn and TurnOff at instant 0, the average
  saved at close is 0.0, not 30.0 (it is 30.0 just before TurnOff).
\<close>

theorem zero_length_session_counterexample:
  "Option.bind
     (run [(Edit 0 0 30 True, env_at 0), (TurnOn, env_at 0), (TurnOff, env_at 0)]
        (init True None (env_at 0)))
     (saved_average 0 0) = Some 0
   \<and> Option.bind
     (run [(Edit 0 0 30 True, env_at 0), (TurnOn, env_at 0), (TurnOff, env_at 0)]
        (init True None (env_at 0)))
     (saved_average 0 0) \<noteq> Some 30
   \<and> Option.bind
     (run [(Edit 0 0 30 True, env_at 0), (TurnOn, env_at 0)] (init True None (env_at 0)))
     (calculate_average 0 0 0) = Some 30"
  by code_simp

section \<open>Further instances\<close>

theorem turn_off_completes_witness:
  "wf_state (turn_on (env_at 0) (init True None (env_at 0)))
   \<and> instrument_on (turn_on (env_at 0) (init True None (env_at 0)))
   \<and> save_raises ((env_at 9)\<lparr>save_raises := True\<rparr>)
   \<and> brightness_values (turn_off ((env_at 9)\<lparr>save_raises := True\<rparr>)
        (turn_on (env_at 0) (init True None (env_at 0)))) = fresh 0
   \<and> \<not> instrument_on (turn_off ((env_at 9)\<lparr>save_raises := True\<rparr>)
        (turn_on (env_at 0) (init True None (env_at 0))))
   \<and> start_time (turn_off ((env_at 9)\<lparr>save_raises := True\<rparr>)
        (turn_on (env_at 0) (init True None (env_at 0)))) = None
   \<and> last_update_time (turn_off ((env_at 9)\<lparr>save_raises := True\<rparr>)
        (turn_on (env_at 0) (init True None (env_at 0)))) = fresh None
   \<and> (\<exists>oc. outlog (turn_off ((env_at 9)\<lparr>save_raises := True\<rparr>)
        (turn_on (env_at 0) (init True None (env_at 0)))) =
        outlog (turn_on (env_at 0) (init True None (env_at 0)))
          @ [Transmit (transmission (fresh 0)) oc, SaveError])"
proof -
  let ?s = "turn_on (env_at 0) (init True None (env_at 0))"
  have w: "wf_state ?s" by (rule turn_on_cells(1)[OF wf_state_init])
  have on: "instrument_on ?s" by (rule turn_on_frame(1)[OF wf_state_init])
  have sr: "save_raises ((env_at 9)\<lparr>save_raises := True\<rparr>)" by simp
  show ?thesis
    using turn_off_completes[OF w on, where e = "(env_at 9)\<lparr>save_raises := True\<rparr>"] w on
    by auto
qed

theorem average_after_turn_off_witness:
  "instrument_on (turn_on (env_at 5) (init True None (env_at 0)))
   \<and> calculate_average 0 0 9
        (turn_off (env_at 7) (turn_on (env_at 5) (init True None (env_at 0)))) = Some 0"
proof -
  have on: "instrument_on (turn_on (env_at 5) (init True None (env_at 0)))"
    by (rule turn_on_frame(1)[OF wf_state_init])
  show ?thesis
    using average_after_turn_off[OF on, where r = 0 and c = 0 and now = 9 and e = "env_at 7"] on
    by simp
qed

section \<open>The accumulators against the brightness history\<close>

text \<open>
  The two laws of the integral of a step function: past the last change point it grows
  linearly at the last brightness, and a new change point at \<open>t\<close> splits it at \<open>t\<close>.
\<close>

lemma step_integral_extend:
  "h \<noteq> [] \<Longrightarrow> step_integral h T2 = step_integral h T1 + of_int (snd (last h)) * (T2 - T1)"
  by (induction h T1 rule: step_integral.induct) (simp_all add: algebra_simps)

lemma step_integral_snoc:
  "h \<noteq> [] \<Longrightarrow> step_integral (h @ [(t, v)]) T = step_integral h t + of_int v * (T - t)"
proof (induction h t rule: step_integral.induct)
  case (1 T)
  then show ?case by simp
next
  case (2 t0 v0 T)
  then show ?case by simp
next
  case (3 t0 v0 t1 v1 h T)
  then show ?case by simp
qed

lemma on_button_click_cells:
  assumes "wf_state s" "row < rows" "col < cols"
  shows "\<exists>s'. on_button_click row col (answers v ok) e s = Some s' \<and> wf_state s'
     \<and> instrument_on s' = instrument_on s \<and> start_time s' = start_time s
     \<and> (\<forall>r c. r < rows \<and> c < cols \<longrightarrow>
           cellv s' r c =
             (if ok \<and> r = row \<and> c = col
              then edit_g (instrument_on s) (t_now e) v (cellv s r c) else cellv s r c))"
proof (cases ok)
  case False
  then show ?thesis using on_button_click_cancel[OF assms] assms(1) by simp
next
  case True
  note sh = wf_stateD[OF assms(1)]
  show ?thesis
  proof (cases "instrument_on s")
    case False
    have "\<forall>r c. r < rows \<and> c < cols \<longrightarrow>
        cellv (s\<lparr>brightness_values := upd2 (brightness_values s) row col v\<rparr>) r c =
          (if r = row \<and> c = col then edit_g False (t_now e) v (cellv s r c) else cellv s r c)"
      using assms(2,3) sh(1) by (simp add: cellv_def edit_g_def nth_upd2)
    moreover have "wf_state (s\<lparr>brightness_values := upd2 (brightness_values s) row col v\<rparr>)"
      using sh by (simp add: wf_state_def shaped_upd2)
    ultimately show ?thesis
      using on_button_click_off[OF assms(1) False assms(2,3)] True False by simp
  next
    case on: True
    let ?S = "(case last_update_time s ! row ! col of
               None \<Rightarrow> brightness_time_sum s
             | Some l \<Rightarrow>
                 if t_now e - l > 0
                 then upd2 (brightness_time_sum s) row col
                        (brightness_time_sum s ! row ! col
                           + of_int (brightness_values s ! row ! col) * (t_now e - l))
                 else brightness_time_sum s)"
    let ?s' = "s\<lparr>brightness_time_sum := ?S,
          last_update_time := upd2 (last_update_time s) row col (Some (t_now e)),
          brightness_values := upd2 (brightness_values s) row col v\<rparr>"
    have shS: "shaped ?S" using sh(2) by (simp add: shaped_upd2 split: option.splits)
    have S: "?S ! r ! c =
        (if r = row \<and> c = col then fst (snd (edit_g True (t_now e) v (cellv s r c)))
         else brightness_time_sum s ! r ! c)" if "r < rows" "c < cols" for r c
      using that assms(2,3) sh(2)
      by (simp add: cellv_def edit_g_def nth_upd2 split: option.splits)
    have cells: "cellv ?s' r c =
          (if r = row \<and> c = col then edit_g True (t_now e) v (cellv s r c) else cellv s r c)"
      if "r < rows" "c < cols" for r c
    proof -
      have "cellv ?s' r c = (upd2 (brightness_values s) row col v ! r ! c, ?S ! r ! c,
          upd2 (last_update_time s) row col (Some (t_now e)) ! r ! c)"
        by (simp add: cellv_def)
      also have "\<dots> = (if r = row \<and> c = col then edit_g True (t_now e) v (cellv s r c) else cellv s r c)"
        unfolding S[OF that] using that assms(2,3) sh(1,3)
        by (simp add: nth_upd2 cellv_def edit_g_def)
      finally show ?thesis .
    qed
    have "wf_state ?s'" using sh shS by (simp add: wf_state_def shaped_upd2)
    then show ?thesis
      using on_button_click_on[OF assms(1) on assms(2,3), of v e] True on cells by simp
  qed
qed

lemma timer_tick_cells:
  assumes "wf_state s"
  shows "wf_state (timer_tick e s)" "frame (timer_tick e s) = frame s"
    "\<And>r c. r < rows \<Longrightarrow> c < cols \<Longrightarrow>
       cellv (timer_tick e s) r c =
         (if instrument_on s \<and> start_time s \<noteq> None then tick_g (t_now e) (cellv s r c)
          else cellv s r c)"
  using for_cells_local[OF tick_local[of "t_now e"] assms]
  by (auto simp: timer_tick_def assms)

lemma close_interval:
  assumes "h \<noteq> []" "snd (last h) = b" "l \<le> t" "a = step_integral h l"
  shows "l < t \<Longrightarrow> a + of_int b * (t - l) = step_integral h t"
    and "\<not> l < t \<Longrightarrow> a = step_integral h t"
proof -
  show "a + of_int b * (t - l) = step_integral h t" if "l < t"
    using step_integral_extend[OF assms(1), of t l] assms(2,4) by simp
  show "a = step_integral h t" if "\<not> l < t"
  proof -
    have "t = l" using that assms(3) by simp
    then show ?thesis using assms(4) by simp
  qed
qed

lemma accounted_cellv:
  "accounted r c k T s \<longleftrightarrow>
     (case cellv s r c of (b, a, l) \<Rightarrow>
        b = cur_level k \<and>
        (case open_session k of
           None \<Rightarrow> \<not> instrument_on s \<and> a = last_total k
         | Some h \<Rightarrow>
             instrument_on s \<and> h \<noteq> [] \<and> start_time s = Some (fst (hd h)) \<and>
             snd (last h) = cur_level k \<and> sorted (map fst h) \<and>
             (case l of None \<Rightarrow> False
              | Some l \<Rightarrow> fst (last h) \<le> l \<and> l \<le> T \<and> a = step_integral h l)))"
  by (simp add: accounted_def cellv_def)

lemma accounted_mono:
  "accounted r c k T s \<Longrightarrow> T \<le> T' \<Longrightarrow> accounted r c k T' s"
  by (auto simp: accounted_def split: option.splits)

lemma accounted_turn_on:
  assumes wf: "wf_state s" and acc: "accounted r c k T s" and rc: "r < rows" "c < cols"
  shows "accounted r c (observe r c (TurnOn, e) k) (t_now e) (turn_on e s)"
    and "last_update_time (turn_on e s) ! r ! c = Some (t_now e)"
proof -
  have cv: "cellv (turn_on e s) r c = (cur_level k, 0, Some (t_now e))"
    using turn_on_cells(2)[OF wf rc] acc by (simp add: accounted_def)
  show "accounted r c (observe r c (TurnOn, e) k) (t_now e) (turn_on e s)"
    unfolding accounted_cellv cv using turn_on_frame(1,2)[OF wf, where e = e] by simp
  show "last_update_time (turn_on e s) ! r ! c = Some (t_now e)"
    using cv by (simp add: cellv_def)
qed

lemma accounted_turn_off:
  assumes wf: "wf_state s" and acc: "accounted r c k T s" and le: "T \<le> t_now e"
    and rc: "r < rows" "c < cols"
  shows "accounted r c (observe r c (TurnOff, e) k) (t_now e) (turn_off e s)"
proof (cases "instrument_on s")
  case False
  then have "open_session k = None" using acc by (auto simp: accounted_def split: option.splits)
  then show ?thesis using False accounted_mono[OF acc le] by (simp add: turn_off_def)
next
  case True
  obtain b a l where cv: "cellv s r c = (b, a, l)" by (cases "cellv s r c") auto
  from acc True obtain h l0 where h: "open_session k = Some h" "h \<noteq> []" "snd (last h) = b"
    "l = Some l0" "l0 \<le> T" "a = step_integral h l0" "b = cur_level k"
    unfolding accounted_cellv cv by (auto split: option.splits)
  have sum: "brightness_time_sum (turn_off e s) ! r ! c = step_integral h (t_now e)"
    using turn_off_on_fields(3)[OF wf True rc, where e = e]
      close_interval[OF h(2,3) order_trans[OF h(5) le] h(6)]
    by (simp add: cv close_g_def h(4))
  have b0: "brightness_values (turn_off e s) ! r ! c = 0"
    using turn_off_on_fields(2)[OF wf True, where e = e] rc by (simp add: fresh_nth)
  show ?thesis
    using sum b0 turn_off_session_cleared(1)[where e = e and s = s]
    by (simp add: accounted_def h(1))
qed

lemma accounted_tick:
  assumes wf: "wf_state s" and acc: "accounted r c k T s" and le: "T \<le> t_now e"
    and rc: "r < rows" "c < cols"
  shows "accounted r c (observe r c (Tick, e) k) (t_now e) (timer_tick e s)"
    and "instrument_on (timer_tick e s) \<Longrightarrow>
           last_update_time (timer_tick e s) ! r ! c = Some (t_now e)"
proof -
  note tk = timer_tick_cells[OF wf, where e = e]
  note fr = frame_simps[OF tk(2)]
  obtain b a l where cv: "cellv s r c = (b, a, l)" by (cases "cellv s r c") auto
  show "accounted r c (observe r c (Tick, e) k) (t_now e) (timer_tick e s)"
  proof (cases "instrument_on s")
    case False
    then have "timer_tick e s = s" by (simp add: timer_tick_def)
    then show ?thesis using accounted_mono[OF acc le] by simp
  next
    case True
    from acc True obtain h l0 where h: "open_session k = Some h" "h \<noteq> []" "snd (last h) = b"
      "l = Some l0" "l0 \<le> T" "a = step_integral h l0" "b = cur_level k"
      "start_time s = Some (fst (hd h))" "sorted (map fst h)" "fst (last h) \<le> l0"
      unfolding accounted_cellv cv by (auto split: option.splits)
    have l0: "l0 \<le> t_now e" using h(5) le by simp
    have cv': "cellv (timer_tick e s) r c =
        (if t_now e - l0 > 0 then (b, step_integral h (t_now e), Some (t_now e)) else (b, a, l))"
      using tk(3)[OF rc] True h(8) close_interval[OF h(2,3) l0 h(6)]
      by (simp add: cv tick_g_def h(4))
    show ?thesis
      unfolding accounted_cellv cv' using True fr(3,4) h l0 by auto
  qed
  show "last_update_time (timer_tick e s) ! r ! c = Some (t_now e)" if "instrument_on (timer_tick e s)"
  proof -
    have on: "instrument_on s" using that fr(3) by simp
    from acc on obtain h l0 where h: "open_session k = Some h"
      "l = Some l0" "l0 \<le> T" "start_time s = Some (fst (hd h))"
      unfolding accounted_cellv cv by (auto split: option.splits)
    have "cellv (timer_tick e s) r c = tick_g (t_now e) (b, a, l)"
      using tk(3)[OF rc] on h(4) cv by simp
    then have "snd (snd (cellv (timer_tick e s) r c)) = Some (t_now e)"
      using h(2,3) le by (auto simp: tick_g_def)
    then show ?thesis by (simp add: cellv_def)
  qed
qed

lemma sorted_le_last: "sorted xs \<Longrightarrow> x \<in> set xs \<Longrightarrow> x \<le> last (xs :: rat list)"
  by (induction xs) (auto simp: last_in_set)

lemma sorted_snoc_last:
  assumes "sorted xs" "xs \<noteq> []" "last xs \<le> (t::rat)"
  shows "sorted (xs @ [t])"
proof -
  have "x \<le> t" if "x \<in> set xs" for x
    using sorted_le_last[OF assms(1) that] assms(3) by simp
  then show ?thesis using assms(1) by (simp add: sorted_append)
qed

lemma accounted_edit:
  assumes wf: "wf_state s" and acc: "accounted r c k T s" and le: "T \<le> t_now e"
    and rc: "r < rows" "c < cols" and grid: "row < rows" "col < cols"
  shows "\<exists>s'. on_button_click row col (answers v ok) e s = Some s' \<and> wf_state s'
     \<and> accounted r c (observe r c (Edit row col v ok, e) k) (t_now e) s'
     \<and> (ok \<and> row = r \<and> col = c \<and> instrument_on s' \<longrightarrow>
          last_update_time s' ! r ! c = Some (t_now e))"
proof -
  obtain s' where s': "on_button_click row col (answers v ok) e s = Some s'" "wf_state s'"
    "instrument_on s' = instrument_on s" "start_time s' = start_time s"
    "cellv s' r c =
       (if ok \<and> r = row \<and> c = col
        then edit_g (instrument_on s) (t_now e) v (cellv s r c) else cellv s r c)"
    using on_button_click_cells[OF wf grid, of v ok e] rc by blast
  obtain b a l where cv: "cellv s r c = (b, a, l)" by (cases "cellv s r c") auto
  have "accounted r c (observe r c (Edit row col v ok, e) k) (t_now e) s'
     \<and> (ok \<and> row = r \<and> col = c \<and> instrument_on s' \<longrightarrow>
          last_update_time s' ! r ! c = Some (t_now e))"
  proof (cases "ok \<and> row = r \<and> col = c")
    case False
    have "cellv s' r c = (b, a, l)" using s'(5) False cv by auto
    then have "accounted r c k T s'"
      using acc s'(3,4) unfolding accounted_cellv cv by (auto split: option.splits)
    then show ?thesis using False accounted_mono[OF _ le] by auto
  next
    case hit: True
    show ?thesis
    proof (cases "instrument_on s")
      case False
      then have k: "open_session k = None" "a = last_total k"
        using acc unfolding accounted_cellv cv by (auto split: option.splits)
      have "cellv s' r c = (v, a, l)" using s'(5) hit False by (simp add: cv edit_g_def)
      then show ?thesis
        unfolding accounted_cellv using hit False s'(3) k by simp
    next
      case True
      from acc True obtain h l0 where h: "open_session k = Some h" "h \<noteq> []" "snd (last h) = b"
        "l = Some l0" "l0 \<le> T" "a = step_integral h l0" "b = cur_level k"
        "start_time s = Some (fst (hd h))" "sorted (map fst h)" "fst (last h) \<le> l0"
        unfolding accounted_cellv cv by (auto split: option.splits)
      have l0: "l0 \<le> t_now e" using h(5) le by simp
      have cv': "cellv s' r c = (v, step_integral h (t_now e), Some (t_now e))"
        using s'(5) hit True close_interval[OF h(2,3) l0 h(6)]
        by (simp add: cv edit_g_def h(4))
      have srt: "sorted (map fst h @ [t_now e])"
      proof (rule sorted_snoc_last[OF h(9)])
        show "map fst h \<noteq> []" using h(2) by simp
        show "last (map fst h) \<le> t_now e" using h(2,10) l0 by (simp add: last_map)
      qed
      have int: "step_integral (h @ [(t_now e, v)]) (t_now e) = step_integral h (t_now e)"
        using step_integral_snoc[OF h(2), of "t_now e" v "t_now e"] by simp
      have "accounted r c (observe r c (Edit row col v ok, e) k) (t_now e) s'"
        unfolding accounted_cellv cv'
        using hit True s'(3,4) h(1,2,8) srt int by simp
      moreover have "last_update_time s' ! r ! c = Some (t_now e)"
        using cv' by (simp add: cellv_def)
      ultimately show ?thesis by simp
    qed
  qed
  then show ?thesis using s'(1,2) by blast
qed

lemma accounted_step:
  assumes wf: "wf_state s" and acc: "accounted r c k T s" and le: "T \<le> t_now e"
    and rc: "r < rows" "c < cols" and grid: "in_grid a"
  shows "\<exists>s'. step (a, e) s = Some s' \<and> wf_state s'
     \<and> accounted r c (observe r c (a, e) k) (t_now e) s'
     \<and> (stamps r c a \<and> instrument_on s' \<longrightarrow> last_update_time s' ! r ! c = Some (t_now e))"
proof (cases a)
  case (Edit row col v ok)
  then show ?thesis using accounted_edit[OF wf acc le rc, of row col v ok] grid by simp
next
  case Tick
  then show ?thesis
    using accounted_tick[OF wf acc le rc] timer_tick_cells(1)[OF wf, where e = e] by simp
next
  case TurnOn
  then show ?thesis
    using accounted_turn_on[OF wf acc rc, where e = e] turn_on_cells(1)[OF wf, where e = e] by simp
next
  case TurnOff
  have "wf_state (turn_off e s)"
    using turn_off_on_fields(1)[OF wf, where e = e] wf by (cases "instrument_on s") (simp_all add: turn_off_def)
  then show ?thesis using TurnOff accounted_turn_off[OF wf acc le rc] by simp
qed

lemma accounted_run:
  assumes rc: "r < rows" "c < cols"
  shows "wf_state s \<Longrightarrow> accounted r c k T s \<Longrightarrow> sorted (T # map (t_now \<circ> snd) tr) \<Longrightarrow>
    list_all (in_grid \<circ> fst) tr \<Longrightarrow>
    \<exists>s'. run tr s = Some s' \<and> wf_state s'
      \<and> accounted r c (fold (observe r c) tr k) (last (T # map (t_now \<circ> snd) tr)) s'
      \<and> (tr \<noteq> [] \<and> stamps r c (fst (last tr)) \<and> instrument_on s' \<longrightarrow>
           last_update_time s' ! r ! c = Some (t_now (snd (last tr))))"
proof (induction tr arbitrary: s k T)
  case Nil
  then show ?case by simp
next
  case (Cons x tr)
  obtain a e where x: "x = (a, e)" by (cases x)
  have le: "T \<le> t_now e" and srt: "sorted (t_now e # map (t_now \<circ> snd) tr)"
    and grid: "in_grid a" and grids: "list_all (in_grid \<circ> fst) tr"
    using Cons.prems(3,4) by (simp_all add: x comp_def)
  obtain s1 where s1: "step (a, e) s = Some s1" "wf_state s1"
    "accounted r c (observe r c (a, e) k) (t_now e) s1"
    "stamps r c a \<and> instrument_on s1 \<longrightarrow> last_update_time s1 ! r ! c = Some (t_now e)"
    using accounted_step[OF Cons.prems(1,2) le rc grid] by blast
  obtain s' where s': "run tr s1 = Some s'" "wf_state s'"
    "accounted r c (fold (observe r c) tr (observe r c (a, e) k))
       (last (t_now e # map (t_now \<circ> snd) tr)) s'"
    "tr \<noteq> [] \<and> stamps r c (fst (last tr)) \<and> instrument_on s' \<longrightarrow>
       last_update_time s' ! r ! c = Some (t_now (snd (last tr)))"
    using Cons.IH[OF s1(2,3) srt grids] by blast
  have "run (x # tr) s = Some s'" using s1(1) s'(1) by (simp add: x)
  moreover have "accounted r c (fold (observe r c) (x # tr) k)
      (last (T # map (t_now \<circ> snd) (x # tr))) s'"
    using s'(3) by (simp add: x)
  moreover have "stamps r c (fst (last (x # tr))) \<and> instrument_on s' \<longrightarrow>
      last_update_time s' ! r ! c = Some (t_now (snd (last (x # tr))))"
  proof (cases "tr = []")
    case True
    then show ?thesis using s1(4) s'(1) by (simp add: x)
  next
    case False
    then show ?thesis using s'(4) by simp
  qed
  ultimately show ?case using s'(2) by blast
qed

lemma accounted_init:
  assumes "r < rows" "c < cols"
  shows "accounted r c \<lparr>cur_level = 0, open_session = None, last_total = 0\<rparr> T (init sim conn e)"
  using assms by (simp add: accounted_def init_def fresh_nth)

lemma average_of_accounted:
  assumes wf: "wf_state s" and rc: "r < rows" "c < cols"
    and h: "h \<noteq> []" "snd (last h) = brightness_values s ! r ! c"
    and st: "start_time s = Some st" "st < now"
    and l: "last_update_time s ! r ! c = Some l"
    and a: "brightness_time_sum s ! r ! c = step_integral h l"
  shows "calculate_average r c now s = Some (step_integral h now / (now - st))"
  using calculate_average_in_grid[OF wf rc, of now] st l a
    step_integral_extend[OF h(1), of now l] h(2)
  by (simp add: mult.commute)

section \<open>Stretches that tile a session\<close>

lemma tiles_snoc: "tiles a l ps \<Longrightarrow> l < t \<Longrightarrow> tiles a t (ps @ [(l, t, v)])"
  by (induction a l ps rule: tiles.induct) auto

lemma tiles_le: "tiles a b ps \<Longrightarrow> a \<le> b"
  by (induction a b ps rule: tiles.induct) auto

lemma tiles_within:
  "tiles a b ps \<Longrightarrow> (x, y, v) \<in> set ps \<Longrightarrow> a \<le> x \<and> y \<le> b"
proof (induction a b ps rule: tiles.induct)
  case (1 a b)
  then show ?case by simp
next
  case (2 a b x' y' v' ps)
  have rest: "tiles y' b ps" and x': "x' = a" "x' < y'" using "2.prems"(1) by simp_all
  show ?case
  proof (cases "(x, y, v) = (x', y', v')")
    case True
    then show ?thesis using tiles_le[OF rest] x' by simp
  next
    case False
    then have "(x, y, v) \<in> set ps" using "2.prems"(2) by auto
    then have "y' \<le> x \<and> y \<le> b" using "2.IH" rest x' by simp
    then show ?thesis using x' by simp
  qed
qed

lemma weighted_snoc: "weighted (ps @ [(x, y, v)]) = weighted ps + of_int v * (y - x)"
  by (simp add: weighted_def)

lemma weighted_Nil: "weighted [] = 0"
  by (simp add: weighted_def)

lemma level_at_last:
  "sorted (map fst h) \<Longrightarrow> h \<noteq> [] \<Longrightarrow> fst (last h) \<le> t \<Longrightarrow> level_at h t = snd (last h)"
proof (induction h t rule: level_at.induct)
  case (1 t)
  then show ?case by simp
next
  case (2 t0 v t)
  then show ?case by simp
next
  case (3 t0 v t1 v1 h t)
  have "t1 \<le> fst (last ((t1, v1) # h))"
    using "3.prems"(1) by (cases h) auto
  then have "t1 \<le> t" using "3.prems"(3) by simp
  then show ?case using 3 by simp
qed

lemma level_at_snoc_before:
  "h \<noteq> [] \<Longrightarrow> t < t' \<Longrightarrow> level_at (h @ [(t', v)]) t = level_at h t"
  by (induction h t rule: level_at.induct) auto

lemma carried_Nil: "carried h []"
  by (simp add: carried_def)

lemma carried_snoc:
  "carried h ps \<Longrightarrow> (\<And>t. x \<le> t \<Longrightarrow> t < y \<Longrightarrow> level_at h t = v) \<Longrightarrow>
   carried h (ps @ [(x, y, v)])"
  by (auto simp: carried_def)

lemma carried_new_point:
  assumes "carried h ps" "tiles a l ps" "l \<le> t'" "h \<noteq> []"
  shows "carried (h @ [(t', v)]) ps"
proof -
  have "level_at (h @ [(t', v)]) t = w" if "(x, y, w) \<in> set ps" "x \<le> t" "t < y" for x y w t
  proof -
    have "y \<le> l" using tiles_within[OF assms(2) that(1)] by simp
    then have "t < t'" using that(3) assms(3) by simp
    then show ?thesis
      using level_at_snoc_before[OF assms(4)] assms(1) that by (auto simp: carried_def)
  qed
  then show ?thesis by (auto simp: carried_def)
qed

lemma tiled_None: "open_session k = None \<Longrightarrow> tiled r c k s"
  by (simp add: tiled_def)

lemma tiledI:
  "open_session k = Some h \<Longrightarrow> cellv s r c = (b, a, Some l) \<Longrightarrow> tiles (fst (hd h)) l ps \<Longrightarrow>
   carried h ps \<Longrightarrow> a = weighted ps \<Longrightarrow> tiled r c k s"
  by (auto simp: tiled_def cellv_def)

lemma tiledD:
  "tiled r c k s \<Longrightarrow> open_session k = Some h \<Longrightarrow> cellv s r c = (b, a, Some l) \<Longrightarrow>
   \<exists>ps. tiles (fst (hd h)) l ps \<and> carried h ps \<and> a = weighted ps"
  by (auto simp: tiled_def cellv_def)

lemma tiled_same_cell: "cellv s' r c = cellv s r c \<Longrightarrow> tiled r c k s \<Longrightarrow> tiled r c k s'"
  by (auto simp: tiled_def cellv_def split: option.splits)

lemma tiled_turn_on:
  assumes "wf_state s" "r < rows" "c < cols"
  shows "tiled r c (observe r c (TurnOn, e) k) (turn_on e s)"
proof (rule tiledI)
  show "open_session (observe r c (TurnOn, e) k) = Some [(t_now e, cur_level k)]" by simp
  show "cellv (turn_on e s) r c = (brightness_values s ! r ! c, 0, Some (t_now e))"
    by (rule turn_on_cells(2)[OF assms])
  show "tiles (fst (hd [(t_now e, cur_level k)])) (t_now e) []" by simp
  show "carried [(t_now e, cur_level k)] []" by (rule carried_Nil)
  show "(0::rat) = weighted []" by (simp add: weighted_Nil)
qed

lemma tiled_turn_off: "tiled r c (observe r c (TurnOff, e) k) s'"
  by (rule tiled_None) (simp split: option.splits)

lemma open_stretch:
  assumes "sorted (map fst h)" "h \<noteq> []" "fst (last h) \<le> l0"
  shows "l0 \<le> t \<Longrightarrow> level_at h t = snd (last h)"
  using level_at_last[OF assms(1,2), of t] assms(3) by simp

lemma tiled_tick:
  assumes wf: "wf_state s" and acc: "accounted r c k T s" and til: "tiled r c k s"
    and le: "T \<le> t_now e" and rc: "r < rows" "c < cols"
  shows "tiled r c (observe r c (Tick, e) k) (timer_tick e s)"
proof (cases "instrument_on s")
  case False
  then have "timer_tick e s = s" by (simp add: timer_tick_def)
  then show ?thesis using til by simp
next
  case True
  note tk = timer_tick_cells[OF wf, where e = e]
  obtain b a l where cv: "cellv s r c = (b, a, l)" by (cases "cellv s r c") auto
  from acc True obtain h l0 where h: "open_session k = Some h" "h \<noteq> []" "snd (last h) = b"
    "l = Some l0" "l0 \<le> T" "start_time s = Some (fst (hd h))" "sorted (map fst h)"
    "fst (last h) \<le> l0"
    unfolding accounted_cellv cv by (auto split: option.splits)
  from tiledD[OF til h(1) cv[unfolded h(4)]]
  obtain ps where ps: "tiles (fst (hd h)) l0 ps" "carried h ps" "a = weighted ps" by blast
  have cv': "cellv (timer_tick e s) r c =
      (if l0 < t_now e then (b, a + of_int b * (t_now e - l0), Some (t_now e)) else (b, a, Some l0))"
    using tk(3)[OF rc] True h(6) by (simp add: cv tick_g_def h(4))
  show ?thesis
  proof (cases "l0 < t_now e")
    case False
    then have "cellv (timer_tick e s) r c = cellv s r c" using cv' cv h(4) by simp
    then show ?thesis using tiled_same_cell[OF _ til] by simp
  next
    case less: True
    let ?ps = "ps @ [(l0, t_now e, b)]"
    have "tiles (fst (hd h)) (t_now e) ?ps" by (rule tiles_snoc[OF ps(1) less])
    moreover have "carried h ?ps"
      using carried_snoc[OF ps(2), of l0 "t_now e" b] open_stretch[OF h(7,2,8)] h(3) by simp
    moreover have "a + of_int b * (t_now e - l0) = weighted ?ps"
      by (simp add: weighted_snoc ps(3))
    moreover have "cellv (timer_tick e s) r c = (b, a + of_int b * (t_now e - l0), Some (t_now e))"
      using cv' less by simp
    moreover have "open_session (observe r c (Tick, e) k) = Some h" using h(1) by simp
    ultimately show ?thesis by (metis tiledI)
  qed
qed

lemma tiled_edit:
  assumes wf: "wf_state s" and acc: "accounted r c k T s" and til: "tiled r c k s"
    and le: "T \<le> t_now e" and rc: "r < rows" "c < cols" and grid: "row < rows" "col < cols"
    and s': "on_button_click row col (answers v ok) e s = Some s'"
  shows "tiled r c (observe r c (Edit row col v ok, e) k) s'"
proof -
  have cs: "cellv s' r c =
       (if ok \<and> r = row \<and> c = col
        then edit_g (instrument_on s) (t_now e) v (cellv s r c) else cellv s r c)"
    using on_button_click_cells[OF wf grid, of v ok e] rc s' by auto
  obtain b a l where cv: "cellv s r c = (b, a, l)" by (cases "cellv s r c") auto
  show ?thesis
  proof (cases "ok \<and> row = r \<and> col = c")
    case False
    have "cellv s' r c = cellv s r c" using cs False by auto
    moreover have "observe r c (Edit row col v ok, e) k = k" using False by auto
    ultimately show ?thesis using tiled_same_cell[OF _ til] by simp
  next
    case hit: True
    show ?thesis
    proof (cases "instrument_on s")
      case False
      then have "open_session k = None"
        using acc unfolding accounted_cellv cv by (auto split: option.splits)
      then show ?thesis using hit by (intro tiled_None) simp
    next
      case True
      from acc True obtain h l0 where h: "open_session k = Some h" "h \<noteq> []" "snd (last h) = b"
        "l = Some l0" "l0 \<le> T" "sorted (map fst h)" "fst (last h) \<le> l0"
        unfolding accounted_cellv cv by (auto split: option.splits)
      from tiledD[OF til h(1) cv[unfolded h(4)]]
      obtain ps where ps: "tiles (fst (hd h)) l0 ps" "carried h ps" "a = weighted ps" by blast
      have l0: "l0 \<le> t_now e" using h(5) le by simp
      let ?h = "h @ [(t_now e, v)]"
      have k': "open_session (observe r c (Edit row col v ok, e) k) = Some ?h"
        using hit h(1) by simp
      have hd: "fst (hd ?h) = fst (hd h)" using h(2) by simp
      have cv': "cellv s' r c =
          (v, (if l0 < t_now e then a + of_int b * (t_now e - l0) else a), Some (t_now e))"
        using cs hit True by (simp add: cv edit_g_def h(4))
      have old: "carried ?h ps" by (rule carried_new_point[OF ps(2,1) l0 h(2)])
      have "\<exists>qs. tiles (fst (hd h)) (t_now e) qs \<and> carried ?h qs \<and>
          (if l0 < t_now e then a + of_int b * (t_now e - l0) else a) = weighted qs"
      proof (cases "l0 < t_now e")
        case False
        then have "l0 = t_now e" using l0 by simp
        then show ?thesis using ps(1,3) old False by auto
      next
        case less: True
        let ?ps = "ps @ [(l0, t_now e, b)]"
        have "level_at ?h t = b" if "l0 \<le> t" "t < t_now e" for t
          using level_at_snoc_before[OF h(2) that(2), of v] open_stretch[OF h(6,2,7) that(1)] h(3)
          by simp
        then have "carried ?h ?ps" using carried_snoc[OF old, of l0 "t_now e" b] by simp
        moreover have "tiles (fst (hd h)) (t_now e) ?ps" by (rule tiles_snoc[OF ps(1) less])
        moreover have "a + of_int b * (t_now e - l0) = weighted ?ps"
          by (simp add: weighted_snoc ps(3))
        ultimately show ?thesis using less by auto
      qed
      then obtain qs where qs: "tiles (fst (hd ?h)) (t_now e) qs" "carried ?h qs"
          "(if l0 < t_now e then a + of_int b * (t_now e - l0) else a) = weighted qs"
        unfolding hd by blast
      show ?thesis by (rule tiledI[OF k' cv' qs])
    qed
  qed
qed

lemma tiled_step:
  assumes wf: "wf_state s" and acc: "accounted r c k T s" and til: "tiled r c k s"
    and le: "T \<le> t_now e" and rc: "r < rows" "c < cols" and grid: "in_grid a"
    and s': "step (a, e) s = Some s'"
  shows "tiled r c (observe r c (a, e) k) s'"
proof (cases a)
  case (Edit row col v ok)
  then show ?thesis using tiled_edit[OF wf acc til le rc, of row col v ok s'] grid s' by simp
next
  case Tick
  then show ?thesis using tiled_tick[OF wf acc til le rc] s' by auto
next
  case TurnOn
  then show ?thesis using tiled_turn_on[OF wf rc, of e k] s' by auto
next
  case TurnOff
  then show ?thesis using tiled_turn_off s' by auto
qed

lemma tiled_run:
  assumes rc: "r < rows" "c < cols"
  shows "wf_state s \<Longrightarrow> accounted r c k T s \<Longrightarrow> tiled r c k s \<Longrightarrow>
    sorted (T # map (t_now \<circ> snd) tr) \<Longrightarrow> list_all (in_grid \<circ> fst) tr \<Longrightarrow>
    run tr s = Some s' \<Longrightarrow> tiled r c (fold (observe r c) tr k) s'"
proof (induction tr arbitrary: s k T)
  case Nil
  then show ?case by simp
next
  case (Cons x tr)
  obtain a e where x: "x = (a, e)" by (cases x)
  have le: "T \<le> t_now e" and srt: "sorted (t_now e # map (t_now \<circ> snd) tr)"
    and grid: "in_grid a" and grids: "list_all (in_grid \<circ> fst) tr"
    using Cons.prems(4,5) by (simp_all add: x comp_def)
  obtain s1 where s1: "step (a, e) s = Some s1" "wf_state s1"
    "accounted r c (observe r c (a, e) k) (t_now e) s1"
    using accounted_step[OF Cons.prems(1,2) le rc grid] by blast
  have t1: "tiled r c (observe r c (a, e) k) s1"
    by (rule tiled_step[OF Cons.prems(1,2,3) le rc grid s1(1)])
  have "run tr s1 = Some s'" using Cons.prems(6) s1(1) by (simp add: x)
  then show ?case using Cons.IH[OF s1(2,3) t1 srt grids] by (simp add: x)
qed

lemma tiled_init: "tiled r c \<lparr>cur_level = 0, open_session = None, last_total = 0\<rparr> s"
  by (rule tiled_None) simp

lemma average_tiles:
  assumes wf: "wf_state s" and rc: "r < rows" "c < cols"
    and h: "h \<noteq> []" "snd (last h) = brightness_values s ! r ! c" "sorted (map fst h)"
      "fst (last h) \<le> l"
    and st: "start_time s = Some st" "st < now"
    and l: "last_update_time s ! r ! c = Some l" "l \<le> now"
    and ps: "tiles st l ps" "carried h ps" "brightness_time_sum s ! r ! c = weighted ps"
  shows "\<exists>qs. tiles st now qs \<and> carried h qs \<and>
     calculate_average r c now s = Some (weighted qs / (now - st))"
proof -
  have avg: "calculate_average r c now s =
      Some ((weighted ps + (now - l) * of_int (brightness_values s ! r ! c)) / (now - st))"
    using calculate_average_in_grid[OF wf rc, of now] st l(1) ps(3) by simp
  show ?thesis
  proof (cases "l < now")
    case False
    then have "l = now" using l(2) by simp
    then show ?thesis using avg ps(1,2) by auto
  next
    case True
    let ?qs = "ps @ [(l, now, brightness_values s ! r ! c)]"
    have "tiles st now ?qs" by (rule tiles_snoc[OF ps(1) True])
    moreover have "carried h ?qs"
      using carried_snoc[OF ps(2), of l now "brightness_values s ! r ! c"]
        open_stretch[OF h(3,1,4)] h(2) by simp
    moreover have "calculate_average r c now s = Some (weighted ?qs / (now - st))"
      using avg by (simp add: weighted_snoc mult.commute)
    ultimately show ?thesis by blast
  qed
qed

text \<open>
  C1, as amended. Take any run of edits, ticks, TurnOn and TurnOff from the initial state,
  with edits inside the grid and clock readings that never decrease, and any instant
  \<open>now\<close> not before the last operation. The run does not fail, and for every cell of the
  grid, while a session is active: \<open>brightness_time_sum\<close> is the sum, in the order of time
  and with the operations the program uses, of brightness times duration over stretches
  that tile the session from \<open>start_time\<close> to \<open>last_update_time\<close> with no gap and no
  overlap, each at the brightness the cell had throughout it; no change of brightness lies
  after the stamp, the stamp is not after \<open>now\<close>, and it is the instant of the last
  operation when that was a tick, TurnOn or an accepted edit of the cell, so the open
  stretch has been added, once, by then. For \<open>start_time < now\<close> the average is such a sum
  over a tiling of the session up to \<open>now\<close>, divided by \<open>now - start_time\<close>. In exact
  arithmetic, which is the arithmetic of this model, these sums are the time integral of
  the brightness history (and after TurnOff the sum is the integral over the closed
  session); the program computes them in binary floating point, where every operation
  rounds, so there the equality with the integral holds up to rounding only.
\<close>

theorem accumulated_weight_accounts_session:
  assumes "sorted (map (t_now \<circ> snd) tr @ [now])" and "list_all (in_grid \<circ> fst) tr"
    and "r < rows" and "c < cols"
  shows "\<exists>s. run tr (init sim conn e0) = Some s \<and>
     brightness_values s ! r ! c = cur_level (history r c tr) \<and>
     (case open_session (history r c tr) of
        None \<Rightarrow>
          \<not> instrument_on s \<and> brightness_time_sum s ! r ! c = last_total (history r c tr)
      | Some h \<Rightarrow>
          instrument_on s \<and> start_time s = Some (fst (hd h)) \<and> sorted (map fst h) \<and>
          snd (last h) = cur_level (history r c tr) \<and>
          (case last_update_time s ! r ! c of
             None \<Rightarrow> False
           | Some l \<Rightarrow>
               fst (last h) \<le> l \<and> l \<le> now \<and>
               (stamps r c (fst (last tr)) \<longrightarrow> l = t_now (snd (last tr))) \<and>
               (\<exists>ps. tiles (fst (hd h)) l ps \<and> carried h ps \<and>
                     brightness_time_sum s ! r ! c = weighted ps) \<and>
               brightness_time_sum s ! r ! c = step_integral h l) \<and>
          (fst (hd h) < now \<longrightarrow>
             (\<exists>qs. tiles (fst (hd h)) now qs \<and> carried h qs \<and>
                   calculate_average r c now s = Some (weighted qs / (now - fst (hd h)))) \<and>
             calculate_average r c now s = Some (step_integral h now / (now - fst (hd h)))))"
proof -
  define T where "T = (if tr = [] then now else t_now (snd (hd tr)))"
  let ?k0 = "\<lparr>cur_level = 0, open_session = None, last_total = 0\<rparr>"
  have srt: "sorted (map (t_now \<circ> snd) tr)" and bound: "\<forall>x \<in> set (map (t_now \<circ> snd) tr). x \<le> now"
    using assms(1) by (simp_all add: sorted_append)
  have srtT: "sorted (T # map (t_now \<circ> snd) tr)"
    using srt by (cases tr) (simp_all add: T_def)
  have lastT: "last (T # map (t_now \<circ> snd) tr) \<le> now"
  proof (cases "tr = []")
    case True
    then show ?thesis by (simp add: T_def)
  next
    case False
    then have "last (T # map (t_now \<circ> snd) tr) \<in> set (map (t_now \<circ> snd) tr)"
      using last_in_set[of "map (t_now \<circ> snd) tr"] by simp
    then show ?thesis using bound by blast
  qed
  note a0 = accounted_init[OF assms(3,4), of T sim conn e0]
  obtain s where s: "run tr (init sim conn e0) = Some s" "wf_state s"
    "accounted r c (history r c tr) (last (T # map (t_now \<circ> snd) tr)) s"
    "tr \<noteq> [] \<and> stamps r c (fst (last tr)) \<and> instrument_on s \<longrightarrow>
       last_update_time s ! r ! c = Some (t_now (snd (last tr)))"
    using accounted_run[OF assms(3,4) wf_state_init[of sim conn e0] a0 srtT assms(2)]
    unfolding history_def by blast
  have til: "tiled r c (history r c tr) s"
    using tiled_run[OF assms(3,4) wf_state_init[of sim conn e0] a0 tiled_init srtT assms(2) s(1)]
    unfolding history_def .
  have acc: "accounted r c (history r c tr) now s" by (rule accounted_mono[OF s(3) lastT])
  have lvl: "brightness_values s ! r ! c = cur_level (history r c tr)"
    using acc by (simp add: accounted_def)
  show ?thesis
  proof (cases "open_session (history r c tr)")
    case None
    then show ?thesis using s(1) acc by (auto simp: accounted_def)
  next
    case (Some h)
    from acc Some obtain l where h: "instrument_on s" "h \<noteq> []" "start_time s = Some (fst (hd h))"
      "snd (last h) = cur_level (history r c tr)" "sorted (map fst h)"
      "last_update_time s ! r ! c = Some l" "fst (last h) \<le> l" "l \<le> now"
      "brightness_time_sum s ! r ! c = step_integral h l"
      by (auto simp: accounted_def split: option.splits)
    have ne: "tr \<noteq> []"
    proof
      assume "tr = []"
      then have "history r c tr = ?k0" by (simp add: history_def)
      then show False using Some by simp
    qed
    have stamp: "stamps r c (fst (last tr)) \<longrightarrow> l = t_now (snd (last tr))"
      using s(4) ne h(1,6) by simp
    obtain ps where ps: "tiles (fst (hd h)) l ps" "carried h ps"
      "brightness_time_sum s ! r ! c = weighted ps"
      using til Some h(6) by (auto simp: tiled_def)
    have tl: "\<exists>ps. tiles (fst (hd h)) l ps \<and> carried h ps \<and>
        brightness_time_sum s ! r ! c = weighted ps"
      using ps by blast
    have avg: "fst (hd h) < now \<longrightarrow>
        calculate_average r c now s = Some (step_integral h now / (now - fst (hd h)))"
      using average_of_accounted[OF s(2) assms(3,4) h(2) _ h(3) _ h(6,9)] h(4) lvl by simp
    have avt: "fst (hd h) < now \<longrightarrow>
        (\<exists>qs. tiles (fst (hd h)) now qs \<and> carried h qs \<and>
           calculate_average r c now s = Some (weighted qs / (now - fst (hd h))))"
      using average_tiles[OF s(2) assms(3,4) h(2) _ h(5,7,3) _ h(6,8) ps] h(4) lvl by simp
    show ?thesis
      using s(1) lvl Some h stamp avg avt tl by simp
  qed
qed

theorem accumulated_weight_accounts_session_witness:
  "sorted (map (t_now \<circ> snd)
       [(Edit 0 0 50 True, env_at 0), (TurnOn, env_at 0), (Edit 0 0 100 True, env_at 10),
        (Tick, env_at 15)] @ [20])
   \<and> list_all (in_grid \<circ> fst)
       [(Edit 0 0 50 True, env_at 0), (TurnOn, env_at 0), (Edit 0 0 100 True, env_at 10),
        (Tick, env_at 15)]
   \<and> (0::nat) < rows \<and> (0::nat) < cols
   \<and> stamps 0 0 (fst (last [(Edit 0 0 50 True, env_at 0), (TurnOn, env_at 0),
        (Edit 0 0 100 True, env_at 10), (Tick, env_at 15)]))
   \<and> (0::rat) < 20
   \<and> (\<exists>s. run [(Edit 0 0 50 True, env_at 0), (TurnOn, env_at 0), (Edit 0 0 100 True, env_at 10),
               (Tick, env_at 15)] (init True None (env_at 0)) = Some s
         \<and> instrument_on s \<and> start_time s = Some 0
         \<and> last_update_time s ! 0 ! 0 = Some 15
         \<and> brightness_time_sum s ! 0 ! 0 = 1000
         \<and> calculate_average 0 0 20 s = Some 75)"
proof -
  let ?tr = "[(Edit 0 0 50 True, env_at 0), (TurnOn, env_at 0), (Edit 0 0 100 True, env_at 10),
        (Tick, env_at 15)]"
  have g: "(0::nat) < rows" "(0::nat) < cols" by (simp_all add: rows_def cols_def)
  have srt: "sorted (map (t_now \<circ> snd) ?tr @ [20])" by (simp add: env_at_def)
  have grid: "list_all (in_grid \<circ> fst) ?tr" using g by simp
  have hist: "history 0 0 ?tr =
      \<lparr>cur_level = 100, open_session = Some [(0, 50), (10, 100)], last_total = 0\<rparr>"
    by (simp add: history_def env_at_def)
  obtain s where s: "run ?tr (init True None (env_at 0)) = Some s"
    "instrument_on s" "start_time s = Some 0"
    "last_update_time s ! 0 ! 0 = Some 15" "brightness_time_sum s ! 0 ! 0 = 1000"
    "calculate_average 0 0 20 s = Some 75"
    using accumulated_weight_accounts_session[OF srt grid g, of True None "env_at 0"]
    unfolding hist
    by (auto simp: env_at_def split: option.splits)
  show ?thesis using srt grid g s by auto
qed

text \<open>
  C1 as stated fails. When the clock steps back between two readings (here from 10 to 5),
  the edit moves the stamp back without accumulating, and the next tick counts the stretch
  from 5 to 10 a second time: for a cell that is at 100 throughout, the accumulated sum at
  instant 10 is 1500 where the integral is 1000, and the average is 150.
\<close>

theorem backward_clock_counterexample:
  "list_all (in_grid \<circ> fst)
     [(Edit 0 0 100 True, env_at 0), (TurnOn, env_at 0), (Tick, env_at 10),
      (Edit 0 0 100 True, env_at 5), (Tick, env_at 10)]
   \<and> open_session (history 0 0
        [(Edit 0 0 100 True, env_at 0), (TurnOn, env_at 0), (Tick, env_at 10),
         (Edit 0 0 100 True, env_at 5), (Tick, env_at 10)]) = Some [(0, 100), (5, 100)]
   \<and> step_integral [(0, 100), (5, 100)] 10 = 1000
   \<and> Option.bind
        (run [(Edit 0 0 100 True, env_at 0), (TurnOn, env_at 0), (Tick, env_at 10),
              (Edit 0 0 100 True, env_at 5), (Tick, env_at 10)] (init True None (env_at 0)))
        (weight_of 0 0) = Some 1500
   \<and> Option.bind
        (run [(Edit 0 0 100 True, env_at 0), (TurnOn, env_at 0), (Tick, env_at 10),
              (Edit 0 0 100 True, env_at 5), (Tick, env_at 10)] (init True None (env_at 0)))
        (calculate_average 0 0 10) = Some 150"
  by code_simp

end
